theory Spec2Isabelle
  imports Main "HOL-Library.AList"
begin

section \<open>JavaScript values, objects and errors\<close>

text \<open>
  Values as the program meets them (JSON coming from the API, plus \<open>undefined\<close>).
  A number is carried as the text that \<open>String(n)\<close> yields for it (\<open>''42''\<close>, \<open>''1.5''\<close>,
  \<open>''0''\<close>, \<open>''NaN''\<close>), which is all the program ever does with a number in a record.
  An array or object is carried as its \<open>String(...)\<close> text as well.
\<close>

datatype jsval = JUndefined | JNull | JBool bool | JNum string | JStr string | JObject string

datatype jserror = TypeError string | RangeError string | Error string

type_synonym jsobject = "(string \<times> jsval) list"

fun truthy :: "jsval \<Rightarrow> bool" where
  "truthy JUndefined = False"
| "truthy JNull = False"
| "truthy (JBool b) = b"
| "truthy (JNum s) = (s \<noteq> ''0'' \<and> s \<noteq> ''NaN'')"
| "truthy (JStr s) = (s \<noteq> [])"
| "truthy (JObject s) = True"

fun toString :: "jsval \<Rightarrow> string" where
  "toString JUndefined = ''undefined''"
| "toString JNull = ''null''"
| "toString (JBool b) = (if b then ''true'' else ''false'')"
| "toString (JNum s) = s"
| "toString (JStr s) = s"
| "toString (JObject s) = s"

text \<open>\<open>obj[k]\<close>: a missing key reads as \<open>undefined\<close>.\<close>

definition getProp :: "jsobject \<Rightarrow> string \<Rightarrow> jsval" where
  "getProp obj k = (case map_of obj k of None \<Rightarrow> JUndefined | Some v \<Rightarrow> v)"

text \<open>\<open>obj[k] = v\<close>: an existing key keeps its place, a new key goes to the end.\<close>

definition setProp :: "jsobject \<Rightarrow> string \<Rightarrow> jsval \<Rightarrow> jsobject" where
  "setProp obj k v = AList.update k v obj"

definition objectKeys :: "(string \<times> 'a) list \<Rightarrow> string list" where
  "objectKeys obj = map fst obj"

definition objectEntries :: "(string \<times> 'a) list \<Rightarrow> (string \<times> 'a) list" where
  "objectEntries obj = obj"

text \<open>\<open>xs.map(f)\<close> with a callback that may throw: the first exception ends the map.\<close>

fun mapE :: "('a \<Rightarrow> 'e + 'b) \<Rightarrow> 'a list \<Rightarrow> 'e + 'b list" where
  "mapE f [] = Inr []"
| "mapE f (x # xs) =
     (case f x of Inl e \<Rightarrow> Inl e
      | Inr y \<Rightarrow> (case mapE f xs of Inl e \<Rightarrow> Inl e | Inr ys \<Rightarrow> Inr (y # ys)))"

fun join :: "string \<Rightarrow> string list \<Rightarrow> string" where
  "join sep [] = []"
| "join sep [x] = x"
| "join sep (x # y # ys) = x @ sep @ join sep (y # ys)"

definition sq :: string where
  "sq = [CHR 0x27]"

definition nl :: string where
  "nl = [CHR 0x0A]"

section \<open>Strings: digits, replace, upper case\<close>

definition isDigit :: "char \<Rightarrow> bool" where
  "isDigit c = (48 \<le> (of_char c :: nat) \<and> (of_char c :: nat) \<le> 57)"

definition digitVal :: "char \<Rightarrow> nat" where
  "digitVal c = of_char c - 48"

definition digitChar :: "nat \<Rightarrow> char" where
  "digitChar n = char_of (48 + n)"

definition natOfDigits :: "string \<Rightarrow> nat" where
  "natOfDigits ds = foldl (\<lambda>acc c. 10 * acc + digitVal c) 0 ds"

text \<open>The last \<open>k\<close> decimal digits of \<open>n\<close>, zero-padded on the left.\<close>

fun padNat :: "nat \<Rightarrow> nat \<Rightarrow> string" where
  "padNat 0 n = []"
| "padNat (Suc k) n = padNat k (n div 10) @ [digitChar (n mod 10)]"

function showNat :: "nat \<Rightarrow> string" where
  "showNat n = (if n < 10 then [digitChar n] else showNat (n div 10) @ [digitChar (n mod 10)])"
  by pat_completeness auto
termination
  by (relation "measure (\<lambda>n. n)") auto

declare showNat.simps [simp del]

text \<open>The decimal text of an integer, as JavaScript prints it.\<close>

definition showInt :: "int \<Rightarrow> string" where
  "showInt n = (if n < 0 then ''-'' @ showNat (nat (- n)) else showNat (nat n))"

text \<open>\<open>s.replace(pat, rep)\<close> with a string pattern: the first occurrence only.\<close>

fun replaceFirst :: "string \<Rightarrow> string \<Rightarrow> string \<Rightarrow> string" where
  "replaceFirst pat rep [] = (if pat = [] then rep else [])"
| "replaceFirst pat rep (c # cs) =
     (if take (length pat) (c # cs) = pat then rep @ drop (length pat) (c # cs)
      else c # replaceFirst pat rep cs)"

definition startsWith :: "string \<Rightarrow> string \<Rightarrow> bool" where
  "startsWith s p = (take (length p) s = p)"

definition stripPrefix :: "string \<Rightarrow> string \<Rightarrow> string option" where
  "stripPrefix p s = (if startsWith s p then Some (drop (length p) s) else None)"

text \<open>\<open>toUpperCase\<close> on the ASCII letters, which is all a dialect tag holds.\<close>

definition upperChar :: "char \<Rightarrow> char" where
  "upperChar c =
     (if 97 \<le> (of_char c :: nat) \<and> (of_char c :: nat) \<le> 122 then char_of ((of_char c :: nat) - 32) else c)"

definition toUpperCase :: "string \<Rightarrow> string" where
  "toUpperCase s = map upperChar s"

section \<open>The built-in Date (ECMA-262, section 21.4.1), in UTC\<close>

definition msPerDay :: int where
  "msPerDay = 86400000"

definition maxTime :: int where
  "maxTime = 8640000000000000"

definition Day :: "int \<Rightarrow> int" where
  "Day t = t div msPerDay"

definition TimeWithinDay :: "int \<Rightarrow> int" where
  "TimeWithinDay t = t mod msPerDay"

definition DaysInYear :: "int \<Rightarrow> int" where
  "DaysInYear y =
     (if y mod 4 \<noteq> 0 then 365 else if y mod 100 \<noteq> 0 then 366
      else if y mod 400 \<noteq> 0 then 365 else 366)"

definition DayFromYear :: "int \<Rightarrow> int" where
  "DayFromYear y = 365 * (y - 1970) + (y - 1969) div 4 - (y - 1901) div 100 + (y - 1601) div 400"

definition TimeFromYear :: "int \<Rightarrow> int" where
  "TimeFromYear y = msPerDay * DayFromYear y"

text \<open>
  The standard defines \<open>YearFromTime t\<close> as the largest \<open>y\<close> with \<open>TimeFromYear y \<le> t\<close>.
  It is computed here from the mean year length (146097 days in 400 years), corrected by
  one year either way; \<open>YearFromTime_spec\<close> below proves that this is the year of the standard.
\<close>

definition YearFromDay :: "int \<Rightarrow> int" where
  "YearFromDay d =
     (let y = 1970 + (400 * d) div 146097
      in if d < DayFromYear y then y - 1 else if DayFromYear (y + 1) \<le> d then y + 1 else y)"

definition YearFromTime :: "int \<Rightarrow> int" where
  "YearFromTime t = YearFromDay (Day t)"

definition InLeapYear :: "int \<Rightarrow> int" where
  "InLeapYear t = (if DaysInYear (YearFromTime t) = 366 then 1 else 0)"

definition DayWithinYear :: "int \<Rightarrow> int" where
  "DayWithinYear t = Day t - DayFromYear (YearFromTime t)"

definition MonthFromTime :: "int \<Rightarrow> int" where
  "MonthFromTime t =
     (let d = DayWithinYear t; l = InLeapYear t
      in if d < 31 then 0 else if d < 59 + l then 1 else if d < 90 + l then 2
         else if d < 120 + l then 3 else if d < 151 + l then 4 else if d < 181 + l then 5
         else if d < 212 + l then 6 else if d < 243 + l then 7 else if d < 273 + l then 8
         else if d < 304 + l then 9 else if d < 334 + l then 10 else 11)"

definition DateFromTime :: "int \<Rightarrow> int" where
  "DateFromTime t =
     (let d = DayWithinYear t; l = InLeapYear t; m = MonthFromTime t
      in if m = 0 then d + 1 else if m = 1 then d - 30 else if m = 2 then d - 58 - l
         else if m = 3 then d - 89 - l else if m = 4 then d - 119 - l
         else if m = 5 then d - 150 - l else if m = 6 then d - 180 - l
         else if m = 7 then d - 211 - l else if m = 8 then d - 242 - l
         else if m = 9 then d - 272 - l else if m = 10 then d - 303 - l else d - 333 - l)"

definition HourFromTime :: "int \<Rightarrow> int" where
  "HourFromTime t = (t div 3600000) mod 24"

definition MinFromTime :: "int \<Rightarrow> int" where
  "MinFromTime t = (t div 60000) mod 60"

definition SecFromTime :: "int \<Rightarrow> int" where
  "SecFromTime t = (t div 1000) mod 60"

definition msFromTime :: "int \<Rightarrow> int" where
  "msFromTime t = t mod 1000"

text \<open>A Date object: its time value, or the invalid date (time value NaN).\<close>

datatype jsdate = InvalidDate | TimeValue int

text \<open>
  \<open>new Date(n)\<close> for a number \<open>n\<close>: TimeClip makes every \<open>n\<close> beyond 8.64e15 in absolute
  value the invalid date.
\<close>

definition newDate :: "int \<Rightarrow> jsdate" where
  "newDate n = (if \<bar>n\<bar> \<le> maxTime then TimeValue n else InvalidDate)"

text \<open>Years 0 to 9999 print as four digits, all others as a sign and six digits.\<close>

definition yearString :: "int \<Rightarrow> string" where
  "yearString y =
     (if 0 \<le> y \<and> y \<le> 9999 then padNat 4 (nat y)
      else (if y < 0 then ''-'' else ''+'') @ padNat 6 (nat \<bar>y\<bar>))"

definition isoDatePart :: "int \<Rightarrow> string" where
  "isoDatePart t =
     yearString (YearFromTime t) @ ''-'' @ padNat 2 (nat (MonthFromTime t + 1)) @ ''-''
       @ padNat 2 (nat (DateFromTime t))"

definition isoTimePart :: "int \<Rightarrow> string" where
  "isoTimePart t =
     padNat 2 (nat (HourFromTime t)) @ '':'' @ padNat 2 (nat (MinFromTime t)) @ '':''
       @ padNat 2 (nat (SecFromTime t)) @ ''.'' @ padNat 3 (nat (msFromTime t))"

definition isoString :: "int \<Rightarrow> string" where
  "isoString t = isoDatePart t @ ''T'' @ isoTimePart t @ ''Z''"

text \<open>\<open>date.toISOString()\<close> throws a RangeError on the invalid date.\<close>

definition toISOString :: "jsdate \<Rightarrow> jserror + string" where
  "toISOString d =
     (case d of InvalidDate \<Rightarrow> Inl (RangeError ''Invalid time value'')
      | TimeValue t \<Rightarrow> Inr (isoString t))"

text \<open>
  \<open>Date.parse\<close> recognises formats that depend on the engine, so the recogniser is a
  parameter: \<open>dp s = None\<close> when the engine does not read \<open>s\<close> as a date (NaN). The
  result is time-clipped as the standard requires.
\<close>

definition DateParse :: "(string \<Rightarrow> int option) \<Rightarrow> string \<Rightarrow> int option" where
  "DateParse dp s =
     (case dp s of None \<Rightarrow> None | Some t \<Rightarrow> if \<bar>t\<bar> \<le> maxTime then Some t else None)"

section \<open>Reading a canonical timestamp back (the round trip of the specification)\<close>

text \<open>
  The epoch milliseconds that a timestamp \<open>YYYY-MM-DD HH:MM:SS.sss\<close> (or, with an
  expanded year, \<open>+YYYYYY-...\<close> and \<open>-YYYYYY-...\<close>) denotes in UTC, by MakeDay, MakeTime and
  MakeDate of the standard. This is the reading the specification's round trip is
  measured with; the program has no such function.
\<close>

definition readDigits :: "nat \<Rightarrow> string \<Rightarrow> (nat \<times> string) option" where
  "readDigits k s =
     (if k \<le> length s \<and> list_all isDigit (take k s)
      then Some (natOfDigits (take k s), drop k s) else None)"

definition expect :: "char \<Rightarrow> string \<Rightarrow> string option" where
  "expect c s = (case s of [] \<Rightarrow> None | c' # r \<Rightarrow> if c' = c then Some r else None)"

definition readYear :: "string \<Rightarrow> (int \<times> string) option" where
  "readYear s =
     (case s of [] \<Rightarrow> None
      | c # r \<Rightarrow>
          if c = CHR ''+'' then map_option (\<lambda>(n, r'). (int n, r')) (readDigits 6 r)
          else if c = CHR ''-'' then map_option (\<lambda>(n, r'). (- int n, r')) (readDigits 6 r)
          else map_option (\<lambda>(n, r'). (int n, r')) (readDigits 4 s))"

definition daysBeforeMonth :: "int \<Rightarrow> int \<Rightarrow> int" where
  "daysBeforeMonth m l =
     (if m = 0 then 0 else if m = 1 then 31 else if m = 2 then 59 + l else if m = 3 then 90 + l
      else if m = 4 then 120 + l else if m = 5 then 151 + l else if m = 6 then 181 + l
      else if m = 7 then 212 + l else if m = 8 then 243 + l else if m = 9 then 273 + l
      else if m = 10 then 304 + l else 334 + l)"

definition MakeDay :: "int \<Rightarrow> int \<Rightarrow> int \<Rightarrow> int" where
  "MakeDay y m d =
     DayFromYear y + daysBeforeMonth m (if DaysInYear y = 366 then 1 else 0) + d - 1"

definition MakeTime :: "int \<Rightarrow> int \<Rightarrow> int \<Rightarrow> int \<Rightarrow> int" where
  "MakeTime h m s ms = h * 3600000 + m * 60000 + s * 1000 + ms"

definition MakeDate :: "int \<Rightarrow> int \<Rightarrow> int" where
  "MakeDate day time = day * msPerDay + time"

definition timestampEpochMs :: "string \<Rightarrow> int option" where
  "timestampEpochMs s =
     Option.bind (readYear s) (\<lambda>(y, r0).
     Option.bind (expect CHR ''-'' r0) (\<lambda>r1.
     Option.bind (readDigits 2 r1) (\<lambda>(mo, r2).
     Option.bind (expect CHR ''-'' r2) (\<lambda>r3.
     Option.bind (readDigits 2 r3) (\<lambda>(d, r4).
     Option.bind (expect CHR '' '' r4) (\<lambda>r5.
     Option.bind (readDigits 2 r5) (\<lambda>(h, r6).
     Option.bind (expect CHR '':'' r6) (\<lambda>r7.
     Option.bind (readDigits 2 r7) (\<lambda>(mi, r8).
     Option.bind (expect CHR '':'' r8) (\<lambda>r9.
     Option.bind (readDigits 2 r9) (\<lambda>(sec, r10).
     Option.bind (expect CHR ''.'' r10) (\<lambda>r11.
     Option.bind (readDigits 3 r11) (\<lambda>(ms, r12).
       if r12 = [] \<and> 1 \<le> mo \<and> mo \<le> 12 \<and> 1 \<le> d \<and> d \<le> 31 \<and> h < 24 \<and> mi < 60 \<and> sec < 60
       then Some (MakeDate (MakeDay y (int mo - 1) (int d))
                    (MakeTime (int h) (int mi) (int sec) (int ms)))
       else None)))))))))))))"

text \<open>
  The offset part of a wrapped epoch \<open>/Date(N+offset)/\<close>: nothing, or a sign and digits.
\<close>

definition isOffset :: "string \<Rightarrow> bool" where
  "isOffset off =
     (case off of [] \<Rightarrow> True
      | c # ds \<Rightarrow> (c = CHR ''+'' \<or> c = CHR ''-'') \<and> ds \<noteq> [] \<and> list_all isDigit ds)"

text \<open>The characters of a timestamp other than the separator between date and time.\<close>

definition tsChar :: "char \<Rightarrow> bool" where
  "tsChar c = (isDigit c \<or> c = CHR ''+'' \<or> c = CHR ''-'' \<or> c = CHR '':'' \<or> c = CHR ''.'')"

text \<open>An engine whose \<open>Date.parse\<close> reads no string at all.\<close>

definition noDateParse :: "string \<Rightarrow> int option" where
  "noDateParse s = None"

section \<open>Configuration (src/config/index.js)\<close>

record config =
  sfUsername :: "string option"
  sfPassword :: "string option"
  pageSize :: int
  outputFile :: string
  departmentFilter :: string
  retryAttempts :: nat
  retryDelay :: nat
  fieldMapping :: "(string \<times> string) list"

definition sfFieldMapping :: "(string \<times> string) list" where
  "sfFieldMapping =
    [(''code'', ''code''),
     (''effectiveStartDate'', ''effective_start_date''),
     (''cust_subCode'', ''cust_sub_code''),
     (''cust_subDepartment'', ''cust_sub_department''),
     (''lastModifiedDateTime'', ''last_modified_date_time''),
     (''jobCode'', ''job_code''),
     (''jobTitle'', ''job_title''),
     (''payRange'', ''pay_range''),
     (''cust_subDepartment2'', ''cust_sub_department2''),
     (''costCenter'', ''cost_center''),
     (''externalName_localized'', ''external_name_localized''),
     (''effectiveStatus'', ''effective_status''),
     (''externalName_vi_VN'', ''external_name_vi''),
     (''effectiveEndDate'', ''effective_end_date''),
     (''payGrade'', ''pay_grade''),
     (''cust_compensationpackage'', ''Compensation_Package''),
     (''department'', ''department''),
     (''cust_max'', ''cust_max''),
     (''jobLevel'', ''job_level''),
     (''cust_min'', ''cust_min''),
     (''externalName_en_US'', ''externalName_en'')]"

text \<open>\<open>x || dflt\<close> on an environment variable: unset and the empty string are falsy.\<close>

definition orElse :: "string option \<Rightarrow> string \<Rightarrow> string" where
  "orElse x dflt = (case x of None \<Rightarrow> dflt | Some s \<Rightarrow> if s = [] then dflt else s)"

text \<open>
  The \<open>config\<close> object, from the environment: \<open>user\<close> and \<open>pass\<close> are SF_USERNAME and
  SF_PASSWORD, \<open>pageSizeEnv\<close> is what \<open>parseInt(process.env.PAGE_SIZE, 10)\<close> returned
  (\<open>None\<close> for NaN), \<open>outEnv\<close> is OUTPUT_FILE and \<open>deptEnv\<close> is DEPARTMENT_FILTER.
  The retry settings and the field mapping are constants of the source.
\<close>

definition mkConfig ::
  "string option \<Rightarrow> string option \<Rightarrow> int option \<Rightarrow> string option \<Rightarrow> string option \<Rightarrow> config" where
  "mkConfig user pass pageSizeEnv outEnv deptEnv =
     \<lparr> sfUsername = user, sfPassword = pass,
       pageSize = (case pageSizeEnv of None \<Rightarrow> 1000 | Some n \<Rightarrow> if n = 0 then 1000 else n),
       outputFile = orElse outEnv ''output/positions.sql'',
       departmentFilter = orElse deptEnv [],
       retryAttempts = 3, retryDelay = 1000,
       fieldMapping = sfFieldMapping \<rparr>"

definition falsyStr :: "string option \<Rightarrow> bool" where
  "falsyStr x = (x = None \<or> x = Some [])"

definition validateConfig :: "config \<Rightarrow> jserror option" where
  "validateConfig cfg =
     (let errors = (if falsyStr (sfUsername cfg) then [''SF_USERNAME is required''] else [])
                 @ (if falsyStr (sfPassword cfg) then [''SF_PASSWORD is required''] else [])
      in if 0 < length errors
         then Some (Error (''Configuration errors:'' @ nl @ join nl errors)) else None)"

section \<open>SQL generator (src/utils/sqlGenerator.js)\<close>

subsection \<open>The regular expression of parseSFDate\<close>

text \<open>
  \<open>/\/Date\((-?\d+)([+-]\d+)?\)\//\<close> tried at the start of \<open>s\<close>; the result is group 1.
  Both digit runs are followed by a character that is no digit, so only the longest
  run can lead to a match, and the optional group can only be skipped when it does not
  begin at all.
\<close>

definition skipOffset :: "string \<Rightarrow> string" where
  "skipOffset r =
     (case r of [] \<Rightarrow> r
      | c # r' \<Rightarrow>
          if (c = CHR ''+'' \<or> c = CHR ''-'') \<and> takeWhile isDigit r' \<noteq> []
          then dropWhile isDigit r' else r)"

definition matchDateAt :: "string \<Rightarrow> string option" where
  "matchDateAt s =
     (case stripPrefix ''/Date('' s of None \<Rightarrow> None
      | Some r \<Rightarrow>
          let sg = (if startsWith r ''-'' then ''-'' else []);
              r1 = drop (length sg) r;
              ds = takeWhile isDigit r1
          in if ds \<noteq> [] \<and> startsWith (skipOffset (dropWhile isDigit r1)) '')/''
             then Some (sg @ ds) else None)"

text \<open>\<open>s.match(re)\<close> without the \<open>g\<close> flag: the leftmost position where the expression matches.\<close>

fun matchDate :: "string \<Rightarrow> string option" where
  "matchDate [] = matchDateAt []"
| "matchDate (c # cs) =
     (case matchDateAt (c # cs) of Some g \<Rightarrow> Some g | None \<Rightarrow> matchDate cs)"

text \<open>
  \<open>parseInt(g, 10)\<close> on group 1, an optional minus and digits. The exact integer
  stands for the double: below 2^53 the two agree, and above it both the integer and its
  nearest double lie beyond 8.64e15, where \<open>newDate\<close> gives the invalid date either way.
\<close>

definition parseInt10 :: "string \<Rightarrow> int" where
  "parseInt10 g =
     (if startsWith g ''-'' then - int (natOfDigits (drop 1 g)) else int (natOfDigits g))"

subsection \<open>parseSFDate, escapeSqlString, formatSqlValue\<close>

definition sqlTimestamp :: "string \<Rightarrow> string" where
  "sqlTimestamp str = replaceFirst ''Z'' [] (replaceFirst ''T'' '' '' str)"

text \<open>The result is \<open>Inr None\<close> for \<open>null\<close>, \<open>Inr (Some ts)\<close> for a string, \<open>Inl e\<close> for a throw.\<close>

definition parseSFDate :: "(string \<Rightarrow> int option) \<Rightarrow> jsval \<Rightarrow> jserror + string option" where
  "parseSFDate dp sfDate =
     (if \<not> truthy sfDate then Inr None
      else case sfDate of
        JStr s \<Rightarrow>
          (case matchDate s of
             Some g \<Rightarrow>
               (case toISOString (newDate (parseInt10 g)) of
                  Inl e \<Rightarrow> Inl e
                | Inr str \<Rightarrow> Inr (Some (sqlTimestamp str)))
           | None \<Rightarrow>
               (case DateParse dp s of
                  Some t \<Rightarrow>
                    (case toISOString (newDate t) of
                       Inl e \<Rightarrow> Inl e
                     | Inr str \<Rightarrow> Inr (Some (sqlTimestamp str)))
                | None \<Rightarrow> Inr None))
      | _ \<Rightarrow> Inl (TypeError ''sfDate.match is not a function''))"

definition escapeSqlString :: "jsval \<Rightarrow> string option" where
  "escapeSqlString v =
     (if v = JNull \<or> v = JUndefined then None
      else Some (concat (map (\<lambda>c. if c = CHR 0x27 then sq @ sq else [c]) (toString v))))"

text \<open>A value inside a template literal: \<open>null\<close> prints as \<open>null\<close>.\<close>

definition templ :: "string option \<Rightarrow> string" where
  "templ x = (case x of None \<Rightarrow> ''null'' | Some s \<Rightarrow> s)"

definition dateColumns :: "string list" where
  "dateColumns = [''effective_start_date'', ''last_modified_date_time'', ''effective_end_date'']"

text \<open>The default parameter \<open>dbType = "oracle"\<close>: an omitted argument is \<open>None\<close>.\<close>

definition dbTypeOf :: "string option \<Rightarrow> string" where
  "dbTypeOf d = (case d of None \<Rightarrow> ''oracle'' | Some t \<Rightarrow> t)"

definition formatSqlValue ::
  "(string \<Rightarrow> int option) \<Rightarrow> jsval \<Rightarrow> string \<Rightarrow> string option \<Rightarrow> jserror + string" where
  "formatSqlValue dp v columnName dbType =
     (if v = JNull \<or> v = JUndefined then Inr ''NULL''
      else if columnName \<in> set dateColumns then
        (case parseSFDate dp v of
           Inl e \<Rightarrow> Inl e
         | Inr parsedDate \<Rightarrow>
             (case parsedDate of
                None \<Rightarrow> Inr ''NULL''
              | Some d \<Rightarrow>
                  if d = [] then Inr ''NULL''
                  else if dbTypeOf dbType = ''oracle''
                  then Inr (''TO_TIMESTAMP('' @ sq @ d @ sq @ '', '' @ sq
                            @ ''YYYY-MM-DD HH24:MI:SS.FF3'' @ sq @ '')'')
                  else Inr (sq @ d @ sq @ ''::timestamp'')))
      else Inr (sq @ templ (escapeSqlString v) @ sq))"

subsection \<open>transformRecord and the two statements\<close>

definition transformRecord :: "config \<Rightarrow> jsobject \<Rightarrow> jsobject" where
  "transformRecord cfg apiRecord =
     fold (\<lambda>(apiField, dbColumn) dbRecord.
             setProp dbRecord dbColumn
               (if getProp apiRecord apiField \<noteq> JUndefined then getProp apiRecord apiField
                else JNull))
          (objectEntries (fieldMapping cfg)) []"

text \<open>
  \<open>Object.keys(config.fieldMapping).map((k) => config.fieldMapping[k])\<close>: every key read is
  a key of the object, so no read is \<open>undefined\<close>.
\<close>

definition columns :: "config \<Rightarrow> string list" where
  "columns cfg = List.map_filter (map_of (fieldMapping cfg)) (objectKeys (fieldMapping cfg))"

definition oracleText :: "string \<Rightarrow> string \<Rightarrow> string \<Rightarrow> string" where
  "oracleText code insertColumns insertValues =
     ''MERGE INTO job_sf_position target'' @ nl
     @ ''USING (SELECT '' @ sq @ code @ sq @ '' AS code FROM dual) source'' @ nl
     @ ''ON (target.code = source.code)'' @ nl
     @ ''WHEN NOT MATCHED THEN'' @ nl
     @ ''    INSERT ('' @ insertColumns @ '')'' @ nl
     @ ''    VALUES ('' @ insertValues @ '');''"

definition postgresText :: "string \<Rightarrow> string \<Rightarrow> string" where
  "postgresText insertColumns insertValues =
     ''INSERT INTO job_sf_position ('' @ insertColumns @ '')'' @ nl
     @ ''VALUES ('' @ insertValues @ '')'' @ nl
     @ ''ON CONFLICT (code) DO NOTHING;''"

definition generateOracleInsert ::
  "(string \<Rightarrow> int option) \<Rightarrow> config \<Rightarrow> jsobject \<Rightarrow> jserror + string" where
  "generateOracleInsert dp cfg record =
     (let dbRecord = transformRecord cfg record;
          cols = columns cfg
      in case mapE (\<lambda>col. formatSqlValue dp (getProp dbRecord col) col (Some ''oracle'')) cols of
           Inl e \<Rightarrow> Inl e
         | Inr vals \<Rightarrow>
             Inr (oracleText (templ (escapeSqlString (getProp dbRecord ''code'')))
                    (join '', '' cols) (join '', '' vals)))"

definition generatePostgresInsert ::
  "(string \<Rightarrow> int option) \<Rightarrow> config \<Rightarrow> jsobject \<Rightarrow> jserror + string" where
  "generatePostgresInsert dp cfg record =
     (let dbRecord = transformRecord cfg record;
          cols = columns cfg
      in case mapE (\<lambda>col. formatSqlValue dp (getProp dbRecord col) col (Some ''postgres'')) cols of
           Inl e \<Rightarrow> Inl e
         | Inr vals \<Rightarrow> Inr (postgresText (join '', '' cols) (join '', '' vals)))"

definition generateInsertIfNotExists ::
  "(string \<Rightarrow> int option) \<Rightarrow> config \<Rightarrow> jsobject \<Rightarrow> string option \<Rightarrow> jserror + string" where
  "generateInsertIfNotExists dp cfg record dbType =
     (if dbTypeOf dbType = ''postgres'' then generatePostgresInsert dp cfg record
      else generateOracleInsert dp cfg record)"

subsection \<open>Header and footer\<close>

text \<open>
  \<open>now\<close> is the time value that \<open>new Date()\<close> read from the system clock, which is never
  the invalid date; \<open>startDate\<close> and \<open>endDate\<close> are \<open>None\<close> when not given.
\<close>

definition generateSqlHeader ::
  "config \<Rightarrow> int \<Rightarrow> string option \<Rightarrow> string option \<Rightarrow> string option \<Rightarrow> string" where
  "generateSqlHeader cfg now startDate endDate dbType =
     (let dateRange =
            (if \<not> falsyStr startDate \<or> \<not> falsyStr endDate
             then orElse startDate ''N/A'' @ '' to '' @ orElse endDate ''N/A''
             else ''Yesterday'');
          dbTypeUpper = toUpperCase (dbTypeOf dbType)
      in ''-- ============================================'' @ nl
         @ ''-- SF Position Sync SQL ('' @ dbTypeUpper @ '')'' @ nl
         @ ''-- Generated: '' @ isoString now @ nl
         @ ''-- Date Range: '' @ dateRange @ nl
         @ ''-- Department Filter: '' @ departmentFilter cfg @ ''*'' @ nl
         @ ''-- Database: '' @ dbTypeUpper @ nl
         @ ''-- ============================================'' @ nl
         @ nl)"

definition generateSqlFooter :: "nat \<Rightarrow> string" where
  "generateSqlFooter totalRecords =
     nl @ ''-- ============================================'' @ nl
     @ ''-- Total Records: '' @ showNat totalRecords @ nl
     @ ''-- End of SQL file'' @ nl
     @ ''-- ============================================'' @ nl"

section \<open>The host: clock, file system, network\<close>

text \<open>
  What the program reads from its host, as parameters: \<open>dateParse\<close> is the engine's
  \<open>Date.parse\<close> recogniser, \<open>clock k\<close> is the time value of the \<open>k\<close>-th \<open>new Date()\<close> of a sync
  run (0 for the file-name timestamp, 1 and 2 for the two headers), \<open>yesterdayDateTime n\<close>
  is what \<open>getYesterdayDateTime()\<close> returns (it depends on the local time zone) when \<open>n\<close>
  requests have been sent, and \<open>dirname\<close> is \<open>path.dirname\<close>.
\<close>

record host =
  dateParse :: "string \<Rightarrow> int option"
  clock :: "nat \<Rightarrow> int"
  yesterdayDateTime :: "nat \<Rightarrow> string"
  dirname :: "string \<Rightarrow> string"

record request =
  topP :: int
  skipP :: int
  filterP :: string

text \<open>
  A failed request, as axios reports it: \<open>error.code\<close>, \<open>error.response\<close> (the status and
  the \<open>JSON.stringify\<close> text of the body) and \<open>error.message\<close>.
\<close>

record httpError =
  errCode :: "string option"
  errResponse :: "(nat \<times> string) option"
  errMessage :: string

text \<open>
  The body of a successful response, as \<open>response.data?.d?.results\<close> sees it: \<open>data\<close>
  missing, \<open>d\<close> missing, \<open>results\<close> missing (or falsy), or the array of records.
\<close>

datatype envelope = NoData | NoD | NoResults | Results "jsobject list"

datatype response = Success envelope | Failure httpError

text \<open>The server: the answer to the \<open>i\<close>-th request sent (counted from 0).\<close>

type_synonym api = "nat \<Rightarrow> response"

text \<open>
  The effects of a run: the requests sent, the delays slept, the directories that exist
  and the files written, each in order.
\<close>

record world =
  requests :: "request list"
  sleeps :: "nat list"
  dirs :: "string list"
  files :: "(string \<times> string) list"

section \<open>API service (src/services/sfApiService.js)\<close>

definition formatDate :: "string option \<Rightarrow> string option" where
  "formatDate dateStr =
     (if falsyStr dateStr then None
      else if length (the dateStr) = 10 then Some (the dateStr @ ''T00:00:00'')
      else dateStr)"

definition buildDateFilter :: "host \<Rightarrow> nat \<Rightarrow> string option \<Rightarrow> string option \<Rightarrow> string" where
  "buildDateFilter h n startDate endDate =
     (case (formatDate startDate, formatDate endDate) of
        (Some start, Some end) \<Rightarrow>
          ''lastModifiedDateTime ge datetime'' @ sq @ start @ sq
          @ '' and lastModifiedDateTime le datetime'' @ sq @ end @ sq
      | (Some start, None) \<Rightarrow> ''lastModifiedDateTime ge datetime'' @ sq @ start @ sq
      | (None, Some end) \<Rightarrow> ''lastModifiedDateTime le datetime'' @ sq @ end @ sq
      | (None, None) \<Rightarrow> ''lastModifiedDateTime ge datetime'' @ sq @ yesterdayDateTime h n @ sq)"

definition isRetryable :: "httpError \<Rightarrow> bool" where
  "isRetryable err =
     (errCode err = Some ''ECONNRESET'' \<or> errCode err = Some ''ETIMEDOUT''
      \<or> errCode err = Some ''ECONNABORTED''
      \<or> (case errResponse err of None \<Rightarrow> False | Some (status, body) \<Rightarrow> 500 \<le> status))"

text \<open>\<open>response.data?.d?.results || []\<close>\<close>

definition resultsOf :: "envelope \<Rightarrow> jsobject list" where
  "resultsOf body = (case body of Results rs \<Rightarrow> rs | _ \<Rightarrow> [])"

text \<open>
  The statements after the retry loop. With no attempt made (\<open>retryAttempts < 1\<close>)
  \<open>lastError\<close> is still \<open>undefined\<close> and reading \<open>lastError.response\<close> throws a TypeError.
\<close>

definition throwLast :: "httpError option \<Rightarrow> jserror" where
  "throwLast lastError =
     (case lastError of
        None \<Rightarrow> TypeError (''Cannot read properties of undefined (reading '' @ sq
                         @ ''response'' @ sq @ '')'')
      | Some err \<Rightarrow>
          (case errResponse err of
             Some (status, body) \<Rightarrow> Error (''API Error '' @ showNat status @ '': '' @ body)
           | None \<Rightarrow> Error (''Request Error: '' @ errMessage err)))"

text \<open>
  The retry loop \<open>for (attempt = 1; attempt <= retryAttempts; attempt++)\<close>: every pass
  sends the same request; a retryable failure with attempts left sleeps and goes on.
\<close>

function fetchAttempts ::
  "config \<Rightarrow> api \<Rightarrow> request \<Rightarrow> nat \<Rightarrow> httpError option \<Rightarrow> world
     \<Rightarrow> (jserror + jsobject list) \<times> world" where
  "fetchAttempts cfg srv rq attempt lastError w =
     (if attempt \<le> retryAttempts cfg then
        (let w1 = w\<lparr>requests := requests w @ [rq]\<rparr>
         in case srv (length (requests w)) of
              Success body \<Rightarrow> (Inr (resultsOf body), w1)
            | Failure err \<Rightarrow>
                if isRetryable err \<and> attempt < retryAttempts cfg
                then fetchAttempts cfg srv rq (attempt + 1) (Some err)
                       (w1\<lparr>sleeps := sleeps w1 @ [retryDelay cfg * 2 ^ (attempt - 1)]\<rparr>)
                else (Inl (throwLast (Some err)), w1))
      else (Inl (throwLast lastError), w))"
  by pat_completeness auto
termination
  by (relation "measure (\<lambda>(cfg, srv, rq, attempt, lastError, w). retryAttempts cfg + 1 - attempt)")
    auto

declare fetchAttempts.simps [simp del]

definition fetchPositions ::
  "host \<Rightarrow> config \<Rightarrow> api \<Rightarrow> int \<Rightarrow> int \<Rightarrow> string option \<Rightarrow> string option \<Rightarrow> world
     \<Rightarrow> (jserror + jsobject list) \<times> world" where
  "fetchPositions h cfg srv top' skip' startDate endDate w =
     (let rq = \<lparr> topP = top', skipP = skip',
                 filterP = buildDateFilter h (length (requests w)) startDate endDate \<rparr>
      in fetchAttempts cfg srv rq 1 None w)"

text \<open>
  The callback of \<open>filterByDepartment\<close>: \<open>pos.department || ""\<close>, then \<open>startsWith\<close>, which
  only a string has.
\<close>

definition departmentMatches :: "string \<Rightarrow> jsobject \<Rightarrow> jserror + bool" where
  "departmentMatches pre pos =
     (let department = (if truthy (getProp pos ''department'') then getProp pos ''department''
                        else JStr [])
      in case department of
           JStr s \<Rightarrow> Inr (startsWith s pre)
         | _ \<Rightarrow> Inl (TypeError ''department.startsWith is not a function''))"

fun filterE :: "('a \<Rightarrow> 'e + bool) \<Rightarrow> 'a list \<Rightarrow> 'e + 'a list" where
  "filterE f [] = Inr []"
| "filterE f (x # xs) =
     (case f x of Inl e \<Rightarrow> Inl e
      | Inr b \<Rightarrow> (case filterE f xs of Inl e \<Rightarrow> Inl e
                   | Inr ys \<Rightarrow> Inr (if b then x # ys else ys)))"

definition filterByDepartment :: "jsobject list \<Rightarrow> string \<Rightarrow> jserror + jsobject list" where
  "filterByDepartment positions pre = filterE (departmentMatches pre) positions"

section \<open>Sync orchestrator (src/index.js)\<close>

record loopState =
  allFilteredPositions :: "jsobject list"
  page :: nat
  skip :: int
  totalFetched :: nat
  totalFiltered :: nat
  hasMoreData :: bool

definition initState :: loopState where
  "initState = \<lparr> allFilteredPositions = [], page = 1, skip = 0, totalFetched = 0,
                 totalFiltered = 0, hasMoreData = True \<rparr>"

text \<open>
  The lines the program logs (\<open>logger.info\<close>, \<open>logger.progress\<close> and the others) go to the
  console only and are left out of the model.
\<close>

text \<open>One pass through the body of \<open>while (hasMoreData)\<close>.\<close>

definition syncIter ::
  "host \<Rightarrow> config \<Rightarrow> api \<Rightarrow> string option \<Rightarrow> string option \<Rightarrow> loopState \<Rightarrow> world
     \<Rightarrow> (jserror + loopState) \<times> world" where
  "syncIter h cfg srv startDate endDate st w =
     (case fetchPositions h cfg srv (pageSize cfg) (skip st) startDate endDate w of
        (Inl e, w1) \<Rightarrow> (Inl e, w1)
      | (Inr positions, w1) \<Rightarrow>
          (let fetchedCount = length positions
           in case filterByDepartment positions (departmentFilter cfg) of
                Inl e \<Rightarrow> (Inl e, w1)
              | Inr filteredPositions \<Rightarrow>
                  (let st1 = st\<lparr> totalFetched := totalFetched st + fetchedCount,
                                  totalFiltered := totalFiltered st + length filteredPositions,
                                  allFilteredPositions :=
                                    allFilteredPositions st @ filteredPositions \<rparr>
                   in if int fetchedCount < pageSize cfg
                      then (Inr (st1\<lparr>hasMoreData := False\<rparr>), w1)
                      else (Inr (st1\<lparr>page := page st + 1, skip := skip st + pageSize cfg\<rparr>),
                            w1))))"

text \<open>The loop itself may run for ever (a server that never sends a short page): \<open>None\<close>.\<close>

partial_function (option) syncLoop ::
  "host \<Rightarrow> config \<Rightarrow> api \<Rightarrow> string option \<Rightarrow> string option \<Rightarrow> loopState \<Rightarrow> world
     \<Rightarrow> ((jserror + loopState) \<times> world) option" where
  "syncLoop h cfg srv startDate endDate st w =
     (if hasMoreData st then
        (case syncIter h cfg srv startDate endDate st w of
           (Inl e, w1) \<Rightarrow> Some (Inl e, w1)
         | (Inr st1, w1) \<Rightarrow> syncLoop h cfg srv startDate endDate st1 w1)
      else Some (Inr st, w))"

text \<open>
  The configurations at the head of the loop that a run passes through: the start, and
  after every pass that did not throw and left \<open>hasMoreData\<close> for the loop to test.
\<close>

inductive loopReaches ::
  "host \<Rightarrow> config \<Rightarrow> api \<Rightarrow> string option \<Rightarrow> string option
     \<Rightarrow> loopState \<times> world \<Rightarrow> loopState \<times> world \<Rightarrow> bool"
  for h cfg srv startDate endDate c where
  atStart: "loopReaches h cfg srv startDate endDate c c"
| afterPass:
    "loopReaches h cfg srv startDate endDate c (st, w) \<Longrightarrow> hasMoreData st \<Longrightarrow>
     syncIter h cfg srv startDate endDate st w = (Inr st1, w1) \<Longrightarrow>
     loopReaches h cfg srv startDate endDate c (st1, w1)"

code_pred loopReaches .

definition ensureOutputDirectory :: "host \<Rightarrow> string \<Rightarrow> world \<Rightarrow> world" where
  "ensureOutputDirectory h filePath w =
     (let dir = dirname h filePath
      in if dir \<in> set (dirs w) then w else w\<lparr>dirs := dirs w @ [dir]\<rparr>)"

text \<open>The \<open>for ... of\<close> loop that builds both statements of every position.\<close>

definition generateBoth ::
  "(string \<Rightarrow> int option) \<Rightarrow> config \<Rightarrow> jsobject \<Rightarrow> jserror + string \<times> string" where
  "generateBoth dp cfg position =
     (case generateInsertIfNotExists dp cfg position (Some ''oracle'') of
        Inl e \<Rightarrow> Inl e
      | Inr ora \<Rightarrow>
          (case generateInsertIfNotExists dp cfg position (Some ''postgres'') of
             Inl e \<Rightarrow> Inl e
           | Inr pg \<Rightarrow> Inr (ora, pg)))"

text \<open>The summary returned to the caller (its \<open>duration\<close> text is left out).\<close>

record syncResult =
  success :: bool
  resTotalFetched :: nat
  resTotalFiltered :: nat
  sqlStatementsGenerated :: nat
  oracleFile :: string
  postgresFile :: string

definition fileTimestamp :: "int \<Rightarrow> string" where
  "fileTimestamp t =
     map (\<lambda>c. if c = CHR '':'' \<or> c = CHR ''.'' then CHR ''-'' else c) (isoString t)"

text \<open>
  The part of \<open>syncPositions\<close> after the pagination loop. The two \<open>writeFileSync\<close> calls
  are taken to succeed: a failure of the file system is not part of this model.
\<close>

definition writeOutput ::
  "host \<Rightarrow> config \<Rightarrow> string option \<Rightarrow> string option \<Rightarrow> loopState \<Rightarrow> world
     \<Rightarrow> (jserror + syncResult) \<times> world" where
  "writeOutput h cfg startDate endDate st w =
     (let baseFileName =
            replaceFirst ''.sql'' (''_'' @ fileTimestamp (clock h 0)) (outputFile cfg)
      in case mapE (generateBoth (dateParse h) cfg) (allFilteredPositions st) of
           Inl e \<Rightarrow> (Inl e, w)
         | Inr stmts \<Rightarrow>
             (let oracleStatements = map fst stmts;
                  postgresStatements = map snd stmts;
                  oracleFile' = baseFileName @ ''_oracle.sql'';
                  oracleSqlContent =
                    generateSqlHeader cfg (clock h 1) startDate endDate (Some ''oracle'')
                    @ join (nl @ nl) oracleStatements
                    @ generateSqlFooter (length oracleStatements);
                  w1 = w\<lparr>files := files w @ [(oracleFile', oracleSqlContent)]\<rparr>;
                  postgresFile' = baseFileName @ ''_postgres.sql'';
                  postgresSqlContent =
                    generateSqlHeader cfg (clock h 2) startDate endDate (Some ''postgres'')
                    @ join (nl @ nl) postgresStatements
                    @ generateSqlFooter (length postgresStatements);
                  w2 = w1\<lparr>files := files w1 @ [(postgresFile', postgresSqlContent)]\<rparr>
              in (Inr \<lparr> success = True,
                         resTotalFetched = totalFetched st,
                         resTotalFiltered = totalFiltered st,
                         sqlStatementsGenerated = length (allFilteredPositions st),
                         oracleFile = oracleFile',
                         postgresFile = postgresFile' \<rparr>, w2)))"

definition syncPositions ::
  "host \<Rightarrow> config \<Rightarrow> api \<Rightarrow> string option \<Rightarrow> string option \<Rightarrow> world
     \<Rightarrow> ((jserror + syncResult) \<times> world) option" where
  "syncPositions h cfg srv startDate endDate w =
     (case validateConfig cfg of
        Some e \<Rightarrow> Some (Inl e, w)
      | None \<Rightarrow>
          (case syncLoop h cfg srv startDate endDate initState
                  (ensureOutputDirectory h (outputFile cfg) w) of
             None \<Rightarrow> None
           | Some (Inl e, w1) \<Rightarrow> Some (Inl e, w1)
           | Some (Inr st, w1) \<Rightarrow> Some (writeOutput h cfg startDate endDate st w1)))"

section \<open>Notions of the specification used in the claims\<close>



text \<open>
  A record whose \<open>department\<close> is as the API sends it: a string, or missing or another
  falsy value; and the text that \<open>filterByDepartment\<close> then compares with the prefix.
\<close>

definition departmentOk :: "jsobject \<Rightarrow> bool" where
  "departmentOk pos =
     (case getProp pos ''department'' of
        JStr s \<Rightarrow> True
      | v \<Rightarrow> \<not> truthy v)"

definition departmentText :: "jsobject \<Rightarrow> string" where
  "departmentText pos = (case getProp pos ''department'' of JStr s \<Rightarrow> s | _ \<Rightarrow> [])"

text \<open>
  The API fields that the field mapping sends to a date column, and a value that
  \<open>parseSFDate\<close> takes without throwing: a falsy value, or a string whose wrapped epoch, if
  it holds one, lies within the range of a Date.
\<close>

definition dateFields :: "string list" where
  "dateFields = map fst (filter (\<lambda>(f, c). c \<in> set dateColumns) sfFieldMapping)"

definition dateValueOk :: "jsval \<Rightarrow> bool" where
  "dateValueOk v =
     (case v of
        JStr s \<Rightarrow> (case matchDate s of None \<Rightarrow> True | Some g \<Rightarrow> \<bar>parseInt10 g\<bar> \<le> maxTime)
      | _ \<Rightarrow> \<not> truthy v)"

definition datesOk :: "jsobject \<Rightarrow> bool" where
  "datesOk r = list_all (\<lambda>f. dateValueOk (getProp r f)) dateFields"

section \<open>Sample hosts, servers and records for the instances\<close>

definition sampleHost :: host where
  "sampleHost =
     \<lparr> dateParse = noDateParse, clock = (\<lambda>k. 1700000000000),
       yesterdayDateTime = (\<lambda>n. ''2023-11-13T22:13:20''), dirname = (\<lambda>p. ''output'') \<rparr>"

definition sampleConfig :: config where
  "sampleConfig = mkConfig (Some ''user'') (Some ''secret'') (Some 2) None (Some ''ENG'')"

definition emptyWorld :: world where
  "emptyWorld = \<lparr> requests = [], sleeps = [], dirs = [], files = [] \<rparr>"

definition engPosition :: jsobject where
  "engPosition =
     [(''code'', JStr ''X1''), (''department'', JStr ''ENG-Core''),
      (''effectiveStartDate'', JStr ''/Date(1700000000000)/'')]"

definition salesPosition :: jsobject where
  "salesPosition = [(''code'', JStr ''S7''), (''department'', JStr ''SALES-East'')]"

definition notFound :: httpError where
  "notFound =
     \<lparr> errCode = None, errResponse = Some (404, ''{}''),
       errMessage = ''Request failed with status code 404'' \<rparr>"

definition connReset :: httpError where
  "connReset = \<lparr> errCode = Some ''ECONNRESET'', errResponse = None, errMessage = ''socket hang up'' \<rparr>"

text \<open>Three full pages of two records, then a page of one.\<close>

definition pagesServer :: api where
  "pagesServer i =
     (if i < 3 then Success (Results [engPosition, salesPosition])
      else Success (Results [engPosition]))"

text \<open>Two connection resets, then a page.\<close>

definition flakyServer :: api where
  "flakyServer i = (if i < 2 then Failure connReset else Success (Results [engPosition]))"

definition notFoundServer :: api where
  "notFoundServer i = Failure notFound"

text \<open>A server that answers with a body that has no \<open>data\<close>.\<close>

definition bareServer :: api where
  "bareServer i = Success NoData"

text \<open>The filter of a request of the sample host when no date is given.\<close>

definition sampleFilter :: string where
  "sampleFilter = ''lastModifiedDateTime ge datetime'' @ sq @ ''2023-11-13T22:13:20'' @ sq"


text \<open>A record whose department is the number 5, and pages of 2, 2, 2 and 1 that begin with it.\<close>

definition oddPosition :: jsobject where
  "oddPosition = [(''code'', JStr ''X9''), (''department'', JNum ''5'')]"

definition oddServer :: api where
  "oddServer i =
     (if i < 3 then Success (Results [oddPosition, salesPosition])
      else Success (Results [engPosition]))"



section \<open>Properties of the built-in Date\<close>

subsection \<open>Integer division by a positive number\<close>

lemma div_lower: "0 < n \<Longrightarrow> n * (a div n) \<le> (a::int)"
proof -
  assume n: "0 < n"
  have "a = n * (a div n) + a mod n" by simp
  moreover have "0 \<le> a mod n" using n by simp
  ultimately show ?thesis by linarith
qed

lemma div_upper: "0 < n \<Longrightarrow> (a::int) < n * (a div n) + n"
proof -
  assume n: "0 < n"
  have "a = n * (a div n) + a mod n" by simp
  moreover have "a mod n < n" using n by simp
  ultimately show ?thesis by linarith
qed

lemma div_succ_int:
  fixes a n :: int
  assumes n: "1 < n"
  shows "(a + 1) div n = a div n + (if (a + 1) mod n = 0 then 1 else 0)"
proof -
  define q where "q = a div n"
  define r where "r = a mod n"
  have e: "a = n * q + r" by (simp add: q_def r_def)
  have r: "0 \<le> r" "r < n" using n by (simp_all add: r_def)
  show ?thesis
  proof (cases "r = n - 1")
    case True
    have eq: "a + 1 = n * (q + 1) + 0" using e True by (simp add: algebra_simps)
    have "(a + 1) div n = q + 1"
      by (rule int_div_pos_eq [OF eq]) (use n in simp_all)
    moreover have "(a + 1) mod n = 0"
      by (rule int_mod_pos_eq [OF eq]) (use n in simp_all)
    ultimately show ?thesis by (simp add: q_def)
  next
    case False
    have eq: "a + 1 = n * q + (r + 1)" using e by simp
    have b: "0 \<le> r + 1" "r + 1 < n" using r False by simp_all
    have "(a + 1) div n = q"
      by (rule int_div_pos_eq [OF eq b])
    moreover have "(a + 1) mod n = r + 1"
      by (rule int_mod_pos_eq [OF eq b])
    ultimately show ?thesis using r by (simp add: q_def)
  qed
qed

lemma mod_shift: "((y::int) - n * k) mod n = y mod n"
  using mod_mult_self2 [of y n "- k"] by simp

subsection \<open>Years\<close>

lemma step4: "((y::int) - 1968) div 4 = (y - 1969) div 4 + (if y mod 4 = 0 then 1 else 0)"
proof -
  have "(y - 1968) mod 4 = y mod 4" using mod_shift [of y 4 492] by simp
  moreover have "y - 1969 + 1 = y - 1968" by simp
  ultimately show ?thesis using div_succ_int [of 4 "y - 1969"] by simp
qed

lemma step100: "((y::int) - 1900) div 100 = (y - 1901) div 100 + (if y mod 100 = 0 then 1 else 0)"
proof -
  have "(y - 1900) mod 100 = y mod 100" using mod_shift [of y 100 19] by simp
  moreover have "y - 1901 + 1 = y - 1900" by simp
  ultimately show ?thesis using div_succ_int [of 100 "y - 1901"] by simp
qed

lemma step400: "((y::int) - 1600) div 400 = (y - 1601) div 400 + (if y mod 400 = 0 then 1 else 0)"
proof -
  have "(y - 1600) mod 400 = y mod 400" using mod_shift [of y 400 4] by simp
  moreover have "y - 1601 + 1 = y - 1600" by simp
  ultimately show ?thesis using div_succ_int [of 400 "y - 1601"] by simp
qed

lemma mod100_mod4: "(y::int) mod 100 = 0 \<Longrightarrow> y mod 4 = 0"
proof -
  assume "y mod 100 = 0"
  then have "100 dvd y" by (simp add: mod_eq_0_iff_dvd)
  moreover have "(4::int) dvd 100" by simp
  ultimately have "4 dvd y" by (rule dvd_trans [rotated])
  then show ?thesis by (simp add: mod_eq_0_iff_dvd)
qed

lemma mod400_mod100: "(y::int) mod 400 = 0 \<Longrightarrow> y mod 100 = 0"
proof -
  assume "y mod 400 = 0"
  then have "400 dvd y" by (simp add: mod_eq_0_iff_dvd)
  moreover have "(100::int) dvd 400" by simp
  ultimately have "100 dvd y" by (rule dvd_trans [rotated])
  then show ?thesis by (simp add: mod_eq_0_iff_dvd)
qed

lemma DayFromYear_Suc: "DayFromYear (y + 1) = DayFromYear y + DaysInYear y"
  using mod100_mod4 [of y] mod400_mod100 [of y]
  by (simp add: DayFromYear_def DaysInYear_def step4 step100 step400)

lemma DaysInYear_cases: "DaysInYear y = 365 \<or> DaysInYear y = 366"
  by (simp add: DaysInYear_def)

lemma DayFromYear_bounds:
  "146097 * (y - 1970) - 506 \<le> 400 * DayFromYear y"
  "400 * DayFromYear y \<le> 146097 * (y - 1970) + 589"
proof -
  define a where "a = (y - 1969) div 4"
  define b where "b = (y - 1901) div 100"
  define c where "c = (y - 1601) div 400"
  have a: "4 * a \<le> y - 1969" "y - 1969 < 4 * a + 4"
    unfolding a_def using div_lower [of 4 "y - 1969"] div_upper [of 4 "y - 1969"] by simp_all
  have b: "100 * b \<le> y - 1901" "y - 1901 < 100 * b + 100"
    unfolding b_def using div_lower [of 100 "y - 1901"] div_upper [of 100 "y - 1901"] by simp_all
  have c: "400 * c \<le> y - 1601" "y - 1601 < 400 * c + 400"
    unfolding c_def using div_lower [of 400 "y - 1601"] div_upper [of 400 "y - 1601"] by simp_all
  have D: "DayFromYear y = 365 * (y - 1970) + a - b + c"
    by (simp add: DayFromYear_def a_def b_def c_def)
  have a': "y - 1972 \<le> 4 * a" using a(2) by simp
  have c': "y - 2000 \<le> 400 * c" using c(2) by simp
  have b': "y - 2000 \<le> 100 * b" using b(2) by simp
  show "146097 * (y - 1970) - 506 \<le> 400 * DayFromYear y"
    using a' b(1) c' unfolding D by (simp add: algebra_simps)
  show "400 * DayFromYear y \<le> 146097 * (y - 1970) + 589"
    using a(1) b' c(1) unfolding D by (simp add: algebra_simps)
qed

lemma YearFromDay_bounds:
  "DayFromYear (YearFromDay d) \<le> d" "d < DayFromYear (YearFromDay d + 1)"
proof -
  define q where "q = (400 * d) div 146097"
  have q: "146097 * q \<le> 400 * d" "400 * d < 146097 * q + 146097"
    unfolding q_def using div_lower [of 146097 "400 * d"] div_upper [of 146097 "400 * d"] by simp_all
  define y where "y = 1970 + q"
  have Y: "YearFromDay d = (if d < DayFromYear y then y - 1
     else if DayFromYear (y + 1) \<le> d then y + 1 else y)"
    by (simp add: YearFromDay_def q_def y_def Let_def)
  have l: "400 * DayFromYear (y - 1) \<le> 146097 * (q - 1) + 589"
    using DayFromYear_bounds(2) [of "y - 1"] by (simp add: y_def)
  have u: "146097 * (q + 2) - 506 \<le> 400 * DayFromYear (y + 1 + 1)"
    using DayFromYear_bounds(1) [of "y + 1 + 1"] by (simp add: y_def)
  show "DayFromYear (YearFromDay d) \<le> d"
  proof (cases "d < DayFromYear y")
    case True
    then show ?thesis using l q by (simp add: Y algebra_simps)
  next
    case False
    then show ?thesis by (simp add: Y)
  qed
  show "d < DayFromYear (YearFromDay d + 1)"
  proof (cases "d < DayFromYear y")
    case True
    then show ?thesis by (simp add: Y)
  next
    case False
    then show ?thesis using u q by (simp add: Y algebra_simps)
  qed
qed

lemma DayFromYear_mono: "y \<le> z \<Longrightarrow> DayFromYear y \<le> DayFromYear z"
proof -
  assume "y \<le> z"
  then have "DayFromYear y \<le> DayFromYear (y + int (nat (z - y)))"
  proof (induction "nat (z - y)" arbitrary: z)
    case 0
    then show ?case by simp
  next
    case (Suc k)
    then have k: "k = nat (z - 1 - y)" "y \<le> z - 1" by linarith+
    have "DayFromYear y \<le> DayFromYear (y + int (nat (z - 1 - y)))"
      using Suc.hyps(1) [OF k] .
    also have "\<dots> = DayFromYear (z - 1)" using k(2) by simp
    also have "\<dots> \<le> DayFromYear (z - 1 + 1)"
      using DayFromYear_Suc [of "z - 1"] DaysInYear_cases [of "z - 1"] by linarith
    finally show ?case using Suc.prems by simp
  qed
  then show ?thesis using \<open>y \<le> z\<close> by simp
qed

text \<open>The year computed is the year of the standard: the largest one that has begun.\<close>

lemma YearFromTime_spec:
  "TimeFromYear (YearFromTime t) \<le> t \<and> (\<forall>y. TimeFromYear y \<le> t \<longrightarrow> y \<le> YearFromTime t)"
proof
  have d: "msPerDay * (t div msPerDay) \<le> t" by (rule div_lower) (simp add: msPerDay_def)
  have "DayFromYear (YearFromTime t) \<le> Day t"
    unfolding YearFromTime_def by (rule YearFromDay_bounds)
  then have "msPerDay * DayFromYear (YearFromTime t) \<le> msPerDay * Day t"
    by (simp add: msPerDay_def)
  then show "TimeFromYear (YearFromTime t) \<le> t"
    using d by (simp add: TimeFromYear_def Day_def)
next
  show "\<forall>y. TimeFromYear y \<le> t \<longrightarrow> y \<le> YearFromTime t"
  proof (intro allI impI, rule ccontr)
    fix y assume le: "TimeFromYear y \<le> t" and "\<not> y \<le> YearFromTime t"
    then have "YearFromTime t + 1 \<le> y" by simp
    then have "DayFromYear (YearFromTime t + 1) \<le> DayFromYear y" by (rule DayFromYear_mono)
    moreover have "Day t < DayFromYear (YearFromTime t + 1)"
      unfolding YearFromTime_def by (rule YearFromDay_bounds)
    ultimately have "Day t + 1 \<le> DayFromYear y" by simp
    then have "msPerDay * (Day t + 1) \<le> msPerDay * DayFromYear y" by (simp add: msPerDay_def)
    moreover have "t < msPerDay * (t div msPerDay) + msPerDay"
      by (rule div_upper) (simp add: msPerDay_def)
    ultimately show False using le by (simp add: TimeFromYear_def Day_def algebra_simps)
  qed
qed

subsection \<open>Months, days and the time within the day\<close>

lemma DayWithinYear_range:
  "0 \<le> DayWithinYear t" "DayWithinYear t < 365 + InLeapYear t"
proof -
  have l: "DayFromYear (YearFromTime t) \<le> Day t"
    unfolding YearFromTime_def by (rule YearFromDay_bounds)
  have u: "Day t < DayFromYear (YearFromTime t + 1)"
    unfolding YearFromTime_def by (rule YearFromDay_bounds)
  show "0 \<le> DayWithinYear t" using l by (simp add: DayWithinYear_def)
  show "DayWithinYear t < 365 + InLeapYear t"
    using u DaysInYear_cases [of "YearFromTime t"]
    by (auto simp: DayWithinYear_def InLeapYear_def DayFromYear_Suc)
qed

lemma InLeapYear_cases: "InLeapYear t = 0 \<or> InLeapYear t = 1"
  by (simp add: InLeapYear_def)

lemma MonthFromTime_range: "0 \<le> MonthFromTime t \<and> MonthFromTime t \<le> 11"
  by (simp add: MonthFromTime_def Let_def)

lemma month_table:
  fixes d l :: int
  assumes "0 \<le> d" "d < 365 + l" "l = 0 \<or> l = 1"
  defines "m \<equiv> (if d < 31 then 0 else if d < 59 + l then 1 else if d < 90 + l then 2
         else if d < 120 + l then 3 else if d < 151 + l then 4 else if d < 181 + l then 5
         else if d < 212 + l then 6 else if d < 243 + l then 7 else if d < 273 + l then 8
         else if d < 304 + l then 9 else if d < 334 + l then 10 else (11::int))"
  defines "dt \<equiv> (if m = 0 then d + 1 else if m = 1 then d - 30 else if m = 2 then d - 58 - l
         else if m = 3 then d - 89 - l else if m = 4 then d - 119 - l
         else if m = 5 then d - 150 - l else if m = 6 then d - 180 - l
         else if m = 7 then d - 211 - l else if m = 8 then d - 242 - l
         else if m = 9 then d - 272 - l else if m = 10 then d - 303 - l else d - 333 - l)"
  shows "daysBeforeMonth m l + dt - 1 = d \<and> 1 \<le> dt \<and> dt \<le> 31"
proof -
  from assms(3) show ?thesis
  proof
    assume "l = 0"
    then show ?thesis
      using assms(1,2) unfolding m_def dt_def daysBeforeMonth_def by simp
  next
    assume "l = 1"
    then show ?thesis
      using assms(1,2) unfolding m_def dt_def daysBeforeMonth_def by simp
  qed
qed

lemma DateFromTime_range: "1 \<le> DateFromTime t \<and> DateFromTime t \<le> 31"
  using month_table [OF DayWithinYear_range InLeapYear_cases, of t]
  by (simp add: DateFromTime_def MonthFromTime_def Let_def)

lemma MakeDay_inverse: "MakeDay (YearFromTime t) (MonthFromTime t) (DateFromTime t) = Day t"
proof -
  have "daysBeforeMonth (MonthFromTime t) (InLeapYear t) + DateFromTime t - 1 = DayWithinYear t"
    using month_table [OF DayWithinYear_range InLeapYear_cases, of t]
    by (simp add: DateFromTime_def MonthFromTime_def Let_def)
  then show ?thesis
    by (simp add: MakeDay_def InLeapYear_def DayWithinYear_def)
qed

lemma time_fields_range:
  "0 \<le> HourFromTime t \<and> HourFromTime t < 24"
  "0 \<le> MinFromTime t \<and> MinFromTime t < 60"
  "0 \<le> SecFromTime t \<and> SecFromTime t < 60"
  "0 \<le> msFromTime t \<and> msFromTime t < 1000"
  by (simp_all add: HourFromTime_def MinFromTime_def SecFromTime_def msFromTime_def)

lemma div_div_int: "0 < b \<Longrightarrow> 0 < c \<Longrightarrow> ((a::int) div b) div c = a div (b * c)"
  by (metis zdiv_zmult2_eq less_imp_le)

lemma MakeTime_inverse:
  "MakeTime (HourFromTime t) (MinFromTime t) (SecFromTime t) (msFromTime t) = TimeWithinDay t"
proof -
  define s where "s = t div 1000"
  define m where "m = s div 60"
  define h where "h = m div 60"
  define d where "d = h div 24"
  have e1: "t = 1000 * s + t mod 1000" by (simp add: s_def)
  have e2: "s = 60 * m + s mod 60" by (simp add: m_def)
  have e3: "m = 60 * h + m mod 60" by (simp add: h_def)
  have e4: "h = 24 * d + h mod 24" by (simp add: d_def)
  have m': "t div 60000 = m"
    using div_div_int [of 1000 60 t] by (simp add: m_def s_def)
  have h': "t div 3600000 = h"
    using div_div_int [of 60000 60 t] by (simp add: h_def m')
  have d': "t div 86400000 = d"
    using div_div_int [of 3600000 24 t] by (simp add: d_def h')
  have "t = 86400000 * d + (h mod 24 * 3600000 + m mod 60 * 60000 + s mod 60 * 1000 + t mod 1000)"
    using e1 e2 e3 e4 by linarith
  moreover have "t = 86400000 * (t div 86400000) + t mod 86400000" by simp
  ultimately have "t mod 86400000 = h mod 24 * 3600000 + m mod 60 * 60000 + s mod 60 * 1000 + t mod 1000"
    unfolding d' by linarith
  then show ?thesis
    by (simp add: MakeTime_def HourFromTime_def MinFromTime_def SecFromTime_def msFromTime_def
        TimeWithinDay_def msPerDay_def m' h' s_def)
qed

lemma MakeDate_inverse: "MakeDate (Day t) (TimeWithinDay t) = t"
  by (simp add: MakeDate_def Day_def TimeWithinDay_def)

lemma epoch_of_fields:
  "MakeDate (MakeDay (YearFromTime t) (MonthFromTime t) (DateFromTime t))
     (MakeTime (HourFromTime t) (MinFromTime t) (SecFromTime t) (msFromTime t)) = t"
  by (simp only: MakeDay_inverse MakeTime_inverse MakeDate_inverse)

lemma YearFromTime_range:
  assumes "\<bar>t\<bar> \<le> maxTime"
  shows "-999999 \<le> YearFromTime t \<and> YearFromTime t \<le> 999999"
proof -
  define y where "y = YearFromTime t"
  have l: "DayFromYear y \<le> Day t"
    unfolding y_def YearFromTime_def by (rule YearFromDay_bounds)
  have u: "Day t < DayFromYear (y + 1)"
    unfolding y_def YearFromTime_def by (rule YearFromDay_bounds)
  have "86400000 * (t div 86400000) \<le> t" by (rule div_lower) simp
  moreover have "t < 86400000 * (t div 86400000) + 86400000" by (rule div_upper) simp
  ultimately have D: "- 100000000 \<le> Day t" "Day t \<le> 100000000"
    using assms by (simp_all add: Day_def msPerDay_def maxTime_def abs_le_iff)
  have b1: "146097 * (y - 1970) - 506 \<le> 400 * DayFromYear y" by (rule DayFromYear_bounds)
  have "y \<le> 999999"
  proof (rule ccontr)
    assume "\<not> y \<le> 999999"
    then have "146097 * 1000000 \<le> 146097 * y" by simp
    then show False using b1 l D(2) by (simp add: algebra_simps)
  qed
  moreover have b2: "400 * DayFromYear (y + 1) \<le> 146097 * (y + 1 - 1970) + 589"
    by (rule DayFromYear_bounds)
  have "-999999 \<le> y"
  proof (rule ccontr)
    assume "\<not> -999999 \<le> y"
    then have "146097 * y \<le> 146097 * (- 1000000)" by simp
    then show False using b2 u D(1) by (simp add: algebra_simps)
  qed
  ultimately show ?thesis by (simp add: y_def)
qed

section \<open>Decimal digits and the text of a timestamp\<close>

lemma isDigit_digitChar: "n < 10 \<Longrightarrow> isDigit (digitChar n)"
  by (simp add: isDigit_def digitChar_def)

lemma digitVal_digitChar: "n < 10 \<Longrightarrow> digitVal (digitChar n) = n"
  by (simp add: digitVal_def digitChar_def)

lemma length_padNat: "length (padNat k n) = k"
  by (induction k arbitrary: n) simp_all

lemma digits_padNat: "list_all isDigit (padNat k n)"
  by (induction k arbitrary: n) (simp_all add: isDigit_digitChar)

lemma natOfDigits_snoc: "natOfDigits (ds @ [c]) = 10 * natOfDigits ds + digitVal c"
  by (simp add: natOfDigits_def)

lemma natOfDigits_padNat: "n < 10 ^ k \<Longrightarrow> natOfDigits (padNat k n) = n"
proof (induction k arbitrary: n)
  case 0
  then show ?case by (simp add: natOfDigits_def)
next
  case (Suc k)
  then have "n div 10 < 10 ^ k" by (simp add: less_mult_imp_div_less mult.commute)
  then have "natOfDigits (padNat k (n div 10)) = n div 10" by (rule Suc.IH)
  then show ?case by (simp add: natOfDigits_snoc digitVal_digitChar)
qed

lemma readDigits_padNat:
  "n < 10 ^ k \<Longrightarrow> readDigits k (padNat k n @ rest) = Some (n, rest)"
  by (simp add: readDigits_def length_padNat digits_padNat natOfDigits_padNat)

lemma expect_Cons: "expect c (c # rest) = Some rest"
  by (simp add: expect_def)

lemma isDigit_not_sign: "isDigit c \<Longrightarrow> c \<noteq> CHR ''+'' \<and> c \<noteq> CHR ''-''"
  by (auto simp: isDigit_def)

lemma padNat_Cons: "0 < k \<Longrightarrow> \<exists>c cs. padNat k n = c # cs \<and> isDigit c"
proof -
  assume "0 < k"
  moreover have "length (padNat k n) = k" by (rule length_padNat)
  ultimately obtain c cs where e: "padNat k n = c # cs" by (cases "padNat k n") auto
  moreover have "list_all isDigit (padNat k n)" by (rule digits_padNat)
  ultimately show ?thesis by auto
qed

lemma readYear_digit:
  "isDigit c \<Longrightarrow> readYear (c # cs) = map_option (\<lambda>(n, r'). (int n, r')) (readDigits 4 (c # cs))"
  using isDigit_not_sign [of c] by (simp add: readYear_def)

lemma readYear_plus:
  "readYear (CHR ''+'' # cs) = map_option (\<lambda>(n, r'). (int n, r')) (readDigits 6 cs)"
  by (simp add: readYear_def)

lemma readYear_minus:
  "readYear (CHR ''-'' # cs) = map_option (\<lambda>(n, r'). (- int n, r')) (readDigits 6 cs)"
  by (simp add: readYear_def)

lemma readYear_yearString:
  assumes "-999999 \<le> y" "y \<le> 999999"
  shows "readYear (yearString y @ rest) = Some (y, rest)"
proof (cases "0 \<le> y \<and> y \<le> 9999")
  case True
  obtain c cs where e: "padNat 4 (nat y) = c # cs" and c: "isDigit c"
    using padNat_Cons [of 4 "nat y"] by auto
  have "nat y < 10000" using True by linarith
  then have "nat y < 10 ^ 4" by simp
  then have r: "readDigits 4 (padNat 4 (nat y) @ rest) = Some (nat y, rest)"
    by (rule readDigits_padNat)
  have "readYear ((c # cs) @ rest) = map_option (\<lambda>(n, r'). (int n, r')) (readDigits 4 ((c # cs) @ rest))"
    using readYear_digit [OF c] by simp
  then have "readYear (padNat 4 (nat y) @ rest) = Some (int (nat y), rest)"
    unfolding e [symmetric] r by simp
  then show ?thesis using True by (simp add: yearString_def)
next
  case False
  have "nat \<bar>y\<bar> < 1000000" using assms by linarith
  then have "nat \<bar>y\<bar> < 10 ^ 6" by simp
  then have r: "readDigits 6 (padNat 6 (nat \<bar>y\<bar>) @ rest) = Some (nat \<bar>y\<bar>, rest)"
    by (rule readDigits_padNat)
  show ?thesis
  proof (cases "y < 0")
    case True
    have "yearString y @ rest = CHR ''-'' # (padNat 6 (nat \<bar>y\<bar>) @ rest)"
      using True by (simp add: yearString_def)
    then show ?thesis using True by (simp only: readYear_minus r) simp
  next
    case f: False
    have "yearString y @ rest = CHR ''+'' # (padNat 6 (nat \<bar>y\<bar>) @ rest)"
      using False f by (simp add: yearString_def)
    then show ?thesis using f by (simp only: readYear_plus r) simp
  qed
qed

lemma readDigits2: "n < 100 \<Longrightarrow> readDigits 2 (padNat 2 n @ rest) = Some (n, rest)"
  using readDigits_padNat [of n 2 rest] by simp

lemma readDigits3: "n < 1000 \<Longrightarrow> readDigits 3 (padNat 3 n @ rest) = Some (n, rest)"
  using readDigits_padNat [of n 3 rest] by simp

lemma timestampEpochMs_fields:
  assumes y: "-999999 \<le> y" "y \<le> 999999" and mo: "1 \<le> mo" "mo \<le> 12" and d: "1 \<le> d" "d \<le> 31"
    and t: "h < 24" "mi < 60" "sec < 60" "ms < 1000"
  shows "timestampEpochMs
           (yearString y @ ''-'' @ padNat 2 mo @ ''-'' @ padNat 2 d @ '' '' @ padNat 2 h @ '':''
              @ padNat 2 mi @ '':'' @ padNat 2 sec @ ''.'' @ padNat 3 ms)
         = Some (MakeDate (MakeDay y (int mo - 1) (int d))
                   (MakeTime (int h) (int mi) (int sec) (int ms)))"
proof -
  have b: "mo < 100" "d < 100" "h < 100" "mi < 100" "sec < 100" using mo d t by simp_all
  have r3: "readDigits 3 (padNat 3 ms) = Some (ms, [])"
    using readDigits3 [of ms "[]"] t by simp
  show ?thesis
    unfolding timestampEpochMs_def using mo(1) d(1)
    by (simp add: readYear_yearString [OF y] readDigits2 b r3 expect_def mo d t)
qed

lemma timestampEpochMs_iso:
  assumes "\<bar>t\<bar> \<le> maxTime"
  shows "timestampEpochMs (isoDatePart t @ '' '' @ isoTimePart t) = Some t"
proof -
  have y: "-999999 \<le> YearFromTime t" "YearFromTime t \<le> 999999"
    using YearFromTime_range [OF assms] by simp_all
  have mo: "1 \<le> nat (MonthFromTime t + 1)" "nat (MonthFromTime t + 1) \<le> 12"
    using MonthFromTime_range [of t] by linarith+
  have d: "1 \<le> nat (DateFromTime t)" "nat (DateFromTime t) \<le> 31"
    using DateFromTime_range [of t] by linarith+
  have tm: "nat (HourFromTime t) < 24" "nat (MinFromTime t) < 60" "nat (SecFromTime t) < 60"
    "nat (msFromTime t) < 1000"
    using time_fields_range [of t] by linarith+
  have i: "int (nat (MonthFromTime t + 1)) - 1 = MonthFromTime t"
    "int (nat (DateFromTime t)) = DateFromTime t"
    "int (nat (HourFromTime t)) = HourFromTime t" "int (nat (MinFromTime t)) = MinFromTime t"
    "int (nat (SecFromTime t)) = SecFromTime t" "int (nat (msFromTime t)) = msFromTime t"
    using MonthFromTime_range [of t] DateFromTime_range [of t] time_fields_range [of t]
    by simp_all
  have "timestampEpochMs (isoDatePart t @ '' '' @ isoTimePart t)
        = Some (MakeDate (MakeDay (YearFromTime t) (int (nat (MonthFromTime t + 1)) - 1)
                            (int (nat (DateFromTime t))))
                  (MakeTime (int (nat (HourFromTime t))) (int (nat (MinFromTime t)))
                     (int (nat (SecFromTime t))) (int (nat (msFromTime t)))))"
    using timestampEpochMs_fields [OF y mo d tm]
    by (simp add: isoDatePart_def isoTimePart_def)
  then show ?thesis by (simp only: i epoch_of_fields)
qed

lemma tsChar_padNat: "list_all tsChar (padNat k n)"
  using digits_padNat [of k n] by (simp add: list_all_iff tsChar_def)

lemma tsChar_yearString: "list_all tsChar (yearString y)"
  using tsChar_padNat by (simp add: yearString_def tsChar_def)

lemma tsChar_isoDatePart: "list_all tsChar (isoDatePart t)"
  by (simp add: isoDatePart_def tsChar_padNat tsChar_yearString) (simp add: tsChar_def)

lemma tsChar_isoTimePart: "list_all tsChar (isoTimePart t)"
  by (simp add: isoTimePart_def tsChar_padNat) (simp add: tsChar_def)

lemma tsChar_not_T: "tsChar c \<Longrightarrow> c \<noteq> CHR ''T'' \<and> c \<noteq> CHR ''Z'' \<and> c \<noteq> CHR '' ''"
  by (auto simp: tsChar_def isDigit_def)

lemma replaceFirst_char:
  "c \<notin> set xs \<Longrightarrow> replaceFirst [c] rep (xs @ c # ys) = xs @ rep @ ys"
  by (induction xs) auto

lemma sqlTimestamp_isoString: "sqlTimestamp (isoString t) = isoDatePart t @ '' '' @ isoTimePart t"
proof -
  have d: "CHR ''T'' \<notin> set (isoDatePart t)"
    using tsChar_isoDatePart [of t] tsChar_not_T by (auto simp: list_all_iff)
  have z: "CHR ''Z'' \<notin> set (isoDatePart t @ '' '' @ isoTimePart t)"
    using tsChar_isoDatePart [of t] tsChar_isoTimePart [of t] tsChar_not_T
    by (auto simp: list_all_iff)
  have "replaceFirst ''T'' '' '' (isoString t) = isoDatePart t @ '' '' @ isoTimePart t @ ''Z''"
    using replaceFirst_char [OF d, of "'' ''" "isoTimePart t @ ''Z''"] by (simp add: isoString_def)
  moreover have "replaceFirst ''Z'' [] ((isoDatePart t @ '' '' @ isoTimePart t) @ CHR ''Z'' # [])
      = (isoDatePart t @ '' '' @ isoTimePart t) @ [] @ []"
    by (rule replaceFirst_char [OF z])
  ultimately show ?thesis by (simp add: sqlTimestamp_def)
qed

subsection \<open>The wrapped epoch\<close>

lemma showNat_digits: "list_all isDigit (showNat n) \<and> showNat n \<noteq> []"
proof (induction n rule: showNat.induct)
  case (1 n)
  show ?case
  proof (cases "n < 10")
    case True
    then show ?thesis by (subst (1 2) showNat.simps) (simp add: isDigit_digitChar)
  next
    case False
    then show ?thesis using 1 by (subst (1 2) showNat.simps) (simp add: isDigit_digitChar)
  qed
qed

lemma natOfDigits_showNat: "natOfDigits (showNat n) = n"
proof (induction n rule: showNat.induct)
  case (1 n)
  show ?case
  proof (cases "n < 10")
    case True
    then show ?thesis by (subst showNat.simps) (simp add: natOfDigits_def digitVal_digitChar)
  next
    case False
    then have "natOfDigits (showNat (n div 10)) = n div 10" using 1 by simp
    then show ?thesis
      using False by (subst showNat.simps) (simp add: natOfDigits_snoc digitVal_digitChar)
  qed
qed

lemma showNat_Cons: "\<exists>c cs. showNat n = c # cs \<and> isDigit c"
  using showNat_digits [of n] by (cases "showNat n") auto

lemma parseInt10_showInt: "parseInt10 (showInt n) = n"
proof (cases "n < 0")
  case True
  then show ?thesis by (simp add: parseInt10_def showInt_def startsWith_def natOfDigits_showNat)
next
  case False
  obtain c cs where e: "showNat (nat n) = c # cs" and c: "isDigit c"
    using showNat_Cons by blast
  have "\<not> startsWith (showNat (nat n)) ''-''"
    using isDigit_not_sign [OF c] by (simp add: e startsWith_def)
  then show ?thesis
    using False by (simp add: parseInt10_def showInt_def natOfDigits_showNat)
qed

lemma takeWhile_digits:
  "list_all isDigit ds \<Longrightarrow> \<not> isDigit c \<Longrightarrow> takeWhile isDigit (ds @ c # r) = ds"
  by (simp add: list_all_iff)

lemma dropWhile_digits:
  "list_all isDigit ds \<Longrightarrow> \<not> isDigit c \<Longrightarrow> dropWhile isDigit (ds @ c # r) = c # r"
  by (simp add: list_all_iff)

lemma not_digit_chars:
  "\<not> isDigit CHR '')''" "\<not> isDigit CHR ''+''" "\<not> isDigit CHR ''-''"
  by (simp_all add: isDigit_def)

lemma match_tail:
  assumes ds: "list_all isDigit ds" and off: "isOffset off"
  shows "takeWhile isDigit (ds @ off @ '')/'') = ds"
    and "skipOffset (dropWhile isDigit (ds @ off @ '')/'')) = '')/''"
proof -
  have both: "takeWhile isDigit (ds @ off @ '')/'') = ds
      \<and> skipOffset (dropWhile isDigit (ds @ off @ '')/'')) = '')/''"
  proof (cases off)
    case Nil
    have "takeWhile isDigit (ds @ CHR '')'' # ''/'') = ds"
         "dropWhile isDigit (ds @ CHR '')'' # ''/'') = CHR '')'' # ''/''"
      using takeWhile_digits [OF ds not_digit_chars(1)]
        dropWhile_digits [OF ds not_digit_chars(1)] by simp_all
    then show ?thesis using Nil by (simp add: skipOffset_def)
  next
    case (Cons c od)
    then have c: "c = CHR ''+'' \<or> c = CHR ''-''" and od: "od \<noteq> []" "list_all isDigit od"
      using off by (simp_all add: isOffset_def)
    have nc: "\<not> isDigit c" using c not_digit_chars by auto
    have 1: "takeWhile isDigit (ds @ c # (od @ '')/'')) = ds"
         "dropWhile isDigit (ds @ c # (od @ '')/'')) = c # (od @ '')/'')"
      using takeWhile_digits [OF ds nc] dropWhile_digits [OF ds nc] by simp_all
    have 2: "takeWhile isDigit (od @ CHR '')'' # ''/'') = od"
         "dropWhile isDigit (od @ CHR '')'' # ''/'') = CHR '')'' # ''/''"
      using takeWhile_digits [OF od(2) not_digit_chars(1)]
        dropWhile_digits [OF od(2) not_digit_chars(1)] by simp_all
    show ?thesis using Cons 1 2 c od by (simp add: skipOffset_def)
  qed
  show "takeWhile isDigit (ds @ off @ '')/'') = ds" using both ..
  show "skipOffset (dropWhile isDigit (ds @ off @ '')/'')) = '')/''" using both ..
qed

lemma matchDateAt_plain:
  assumes ds: "list_all isDigit ds" "ds \<noteq> []" and off: "isOffset off"
  shows "matchDateAt (''/Date('' @ ds @ off @ '')/'') = Some ds"
proof -
  obtain c cs where c: "ds = c # cs" "isDigit c" using ds by (cases ds) auto
  have ns: "\<not> startsWith (ds @ off @ '')/'') ''-''"
    using isDigit_not_sign [OF c(2)] by (simp add: c(1) startsWith_def)
  have sp: "stripPrefix ''/Date('' (''/Date('' @ ds @ off @ '')/'') = Some (ds @ off @ '')/'')"
    by (simp add: stripPrefix_def startsWith_def)
  show ?thesis
    unfolding matchDateAt_def sp option.case
    using ds(2) ns
    by (simp add: Let_def match_tail [OF ds(1) off]) (simp add: startsWith_def)
qed

lemma matchDateAt_minus:
  assumes ds: "list_all isDigit ds" "ds \<noteq> []" and off: "isOffset off"
  shows "matchDateAt (''/Date(-'' @ ds @ off @ '')/'') = Some (''-'' @ ds)"
proof -
  have sp: "stripPrefix ''/Date('' (''/Date(-'' @ ds @ off @ '')/'') = Some (CHR ''-'' # (ds @ off @ '')/''))"
    by (simp add: stripPrefix_def startsWith_def)
  have ns: "startsWith (CHR ''-'' # (ds @ off @ '')/'')) ''-''"
    by (simp add: startsWith_def)
  show ?thesis
    unfolding matchDateAt_def sp option.case
    using ds(2)
    by (simp add: Let_def ns match_tail [OF ds(1) off]) (simp add: startsWith_def)
qed

lemma matchDate_wrapped:
  assumes "isOffset off"
  shows "matchDate (''/Date('' @ showInt n @ off @ '')/'') = Some (showInt n)"
proof (cases "n < 0")
  case True
  have "matchDateAt (''/Date(-'' @ showNat (nat (- n)) @ off @ '')/'') = Some (''-'' @ showNat (nat (- n)))"
    using showNat_digits [of "nat (- n)"] assms by (intro matchDateAt_minus) simp_all
  then show ?thesis using True by (simp add: showInt_def)
next
  case False
  have "matchDateAt (''/Date('' @ showNat (nat n) @ off @ '')/'') = Some (showNat (nat n))"
    using showNat_digits [of "nat n"] assms by (intro matchDateAt_plain) simp_all
  then show ?thesis using False by (simp add: showInt_def)
qed

lemma parseSFDate_match:
  assumes "matchDate s = Some g" "s \<noteq> []"
  shows "parseSFDate dp (JStr s) =
           (case toISOString (newDate (parseInt10 g)) of
              Inl e \<Rightarrow> Inl e | Inr str \<Rightarrow> Inr (Some (sqlTimestamp str)))"
  using assms by (simp add: parseSFDate_def)

subsection \<open>Evaluating dates at concrete instants\<close>

lemma padNat2: "padNat 2 n = [digitChar (n div 10 mod 10), digitChar (n mod 10)]"
proof -
  have "padNat (Suc (Suc 0)) n = [digitChar (n div 10 mod 10), digitChar (n mod 10)]" by simp
  then show ?thesis by (simp only: numeral_2_eq_2)
qed

lemma padNat3:
  "padNat 3 n = [digitChar (n div 100 mod 10), digitChar (n div 10 mod 10), digitChar (n mod 10)]"
proof -
  have "padNat (Suc (Suc (Suc 0))) n =
      [digitChar (n div 10 div 10 mod 10), digitChar (n div 10 mod 10), digitChar (n mod 10)]" by simp
  then show ?thesis by (simp only: numeral_3_eq_3 div_mult2_eq [symmetric]) simp
qed

lemma padNat4:
  "padNat 4 n = padNat 2 (n div 100) @ padNat 2 n"
proof -
  have e: "(4::nat) = Suc (Suc (Suc (Suc 0)))" by simp
  show ?thesis unfolding e padNat2 by (simp add: div_mult2_eq [symmetric])
qed

lemma padNat6:
  "padNat 6 n = padNat 2 (n div 10000) @ padNat 2 (n div 100) @ padNat 2 n"
proof -
  have e: "(6::nat) = Suc (Suc (Suc (Suc (Suc (Suc 0)))))" by simp
  show ?thesis unfolding e padNat2 by (simp add: div_mult2_eq [symmetric])
qed

lemma digitChar_eval:
  "digitChar 0 = CHR ''0''" "digitChar (Suc 0) = CHR ''1''" "digitChar 2 = CHR ''2''"
  "digitChar 3 = CHR ''3''" "digitChar 4 = CHR ''4''" "digitChar 5 = CHR ''5''"
  "digitChar 6 = CHR ''6''" "digitChar 7 = CHR ''7''" "digitChar 8 = CHR ''8''"
  "digitChar 9 = CHR ''9''"
  by (simp_all add: digitChar_def char_of_eq_iff)

lemmas date_eval =
  isoDatePart_def isoTimePart_def yearString_def YearFromTime_def YearFromDay_def Day_def
  msPerDay_def DayFromYear_def MonthFromTime_def DateFromTime_def DayWithinYear_def
  InLeapYear_def DaysInYear_def HourFromTime_def MinFromTime_def SecFromTime_def msFromTime_def
  padNat2 padNat3 padNat4 padNat6 digitChar_eval Let_def

section \<open>Claims about the SQL generator\<close>

text \<open>
  C1 (as amended). For every integer \<open>n\<close> within the range of a Date
  (\<open>\<bar>n\<bar> \<le> 8640000000000000\<close>) and every offset part (none, or a sign and digits),
  \<open>parseSFDate\<close> on the wrapped epoch \<open>/Date(n)/\<close> or \<open>/Date(n+offset)/\<close> returns the date and
  the time of \<open>n\<close> joined by a space, and the epoch milliseconds of that timestamp are \<open>n\<close>.
\<close>

theorem parseSFDate_wrapped_epoch_roundtrip:
  assumes "\<bar>n\<bar> \<le> maxTime" and "isOffset off"
  shows "parseSFDate dp (JStr (''/Date('' @ showInt n @ off @ '')/''))
           = Inr (Some (isoDatePart n @ '' '' @ isoTimePart n))
         \<and> timestampEpochMs (isoDatePart n @ '' '' @ isoTimePart n) = Some n"
proof -
  have "parseSFDate dp (JStr (''/Date('' @ showInt n @ off @ '')/'')) =
           (case toISOString (newDate (parseInt10 (showInt n))) of
              Inl e \<Rightarrow> Inl e | Inr str \<Rightarrow> Inr (Some (sqlTimestamp str)))"
    by (rule parseSFDate_match [OF matchDate_wrapped [OF assms(2)]]) simp
  then show ?thesis
    using assms(1) timestampEpochMs_iso [OF assms(1)]
    by (simp add: parseInt10_showInt newDate_def toISOString_def sqlTimestamp_isoString)
qed

text \<open>The instance \<open>/Date(1700000000000+0700)/\<close>.\<close>

theorem parseSFDate_wrapped_epoch_roundtrip_witness:
  "\<bar>1700000000000\<bar> \<le> maxTime \<and> isOffset ''+0700''
   \<and> parseSFDate noDateParse (JStr ''/Date(1700000000000+0700)/'')
       = Inr (Some ''2023-11-14 22:13:20.000'')
   \<and> timestampEpochMs ''2023-11-14 22:13:20.000'' = Some 1700000000000"
proof -
  have h1: "\<bar>1700000000000\<bar> \<le> maxTime" by (simp add: maxTime_def)
  have h2: "isOffset ''+0700''" by (simp add: isOffset_def isDigit_def)
  show ?thesis
    using parseSFDate_wrapped_epoch_roundtrip [OF h1 h2, of noDateParse] h1 h2
    by (simp add: date_eval showInt_def showNat.simps)
qed

text \<open>
  The round trip does not hold for every integer: one millisecond beyond the range of a
  Date, \<open>toISOString\<close> throws and \<open>parseSFDate\<close> returns no timestamp.
\<close>

theorem parseSFDate_out_of_range_throws:
  "parseSFDate noDateParse (JStr ''/Date(8640000000000001)/'')
     = Inl (RangeError ''Invalid time value'')"
  by (simp add: parseSFDate_def matchDateAt_def skipOffset_def stripPrefix_def startsWith_def
      isDigit_def parseInt10_def natOfDigits_def digitVal_def newDate_def maxTime_def
      toISOString_def Let_def)

subsection \<open>Objects and the field mapping\<close>

lemma update_fresh: "k \<notin> fst ` set al \<Longrightarrow> AList.update k v al = al @ [(k, v)]"
  by (induction al) auto

lemma fold_setProp:
  assumes "distinct (map snd fm)" "snd ` set fm \<inter> fst ` set acc = {}"
  shows "fold (\<lambda>(f, c) dbRecord. setProp dbRecord c (g f)) fm acc
           = acc @ map (\<lambda>(f, c). (c, g f)) fm"
  using assms
proof (induction fm arbitrary: acc)
  case Nil
  then show ?case by simp
next
  case (Cons x fm)
  obtain f c where x: "x = (f, c)" by (cases x)
  have fresh: "c \<notin> fst ` set acc" using Cons.prems(2) by (auto simp: x)
  have d: "distinct (map snd fm)" and nc: "c \<notin> snd ` set fm"
    using Cons.prems(1) by (auto simp: x)
  have "snd ` set fm \<inter> fst ` set (acc @ [(c, g f)]) = {}"
    using Cons.prems(2) nc by (auto simp: x)
  then have "fold (\<lambda>(f, c) dbRecord. setProp dbRecord c (g f)) fm (acc @ [(c, g f)])
           = (acc @ [(c, g f)]) @ map (\<lambda>(f, c). (c, g f)) fm"
    by (rule Cons.IH [OF d])
  then show ?case by (simp add: x setProp_def update_fresh [OF fresh])
qed

lemma transformRecord_eq:
  assumes "distinct (map snd (fieldMapping cfg))"
  shows "transformRecord cfg r
           = map (\<lambda>(f, c). (c, if getProp r f \<noteq> JUndefined then getProp r f else JNull))
               (fieldMapping cfg)"
  using fold_setProp [OF assms, of "[]" "\<lambda>f. if getProp r f \<noteq> JUndefined then getProp r f else JNull"]
  by (simp add: transformRecord_def objectEntries_def)

lemma getProp_mapped:
  assumes "distinct (map snd fm)" "(f, c) \<in> set fm"
  shows "getProp (map (\<lambda>(f, c). (c, g f)) fm) c = g f"
proof -
  have "map fst (map (\<lambda>(f, c). (c, g f)) fm) = map snd fm" by (induction fm) auto
  then have "distinct (map fst (map (\<lambda>(f, c). (c, g f)) fm))" using assms(1) by (simp only:)
  moreover have "(c, g f) \<in> set (map (\<lambda>(f, c). (c, g f)) fm)" using assms(2) by force
  ultimately have "map_of (map (\<lambda>(f, c). (c, g f)) fm) c = Some (g f)" by (rule map_of_is_SomeI)
  then show ?thesis by (simp add: getProp_def)
qed

lemma map_filter_total:
  "(\<And>x. x \<in> set xs \<Longrightarrow> f x = Some (g x)) \<Longrightarrow> List.map_filter f xs = map g xs"
  by (induction xs) (simp_all add: map_filter_simps)

lemma map_filter_map: "List.map_filter f (map h xs) = List.map_filter (f \<circ> h) xs"
  by (induction xs) (simp_all add: map_filter_simps split: option.splits)

lemma columns_eq:
  assumes "distinct (map fst (fieldMapping cfg))"
  shows "columns cfg = map snd (fieldMapping cfg)"
proof -
  have "List.map_filter (map_of (fieldMapping cfg) \<circ> fst) (fieldMapping cfg)
          = map snd (fieldMapping cfg)"
  proof (rule map_filter_total)
    fix x assume "x \<in> set (fieldMapping cfg)"
    then have "map_of (fieldMapping cfg) (fst x) = Some (snd x)"
      using map_of_is_SomeI [OF assms, of "fst x" "snd x"] by simp
    then show "(map_of (fieldMapping cfg) \<circ> fst) x = Some (snd x)" by simp
  qed
  then show ?thesis by (simp only: columns_def objectKeys_def map_filter_map)
qed

lemma mapE_map: "mapE f (map h xs) = mapE (f \<circ> h) xs"
  by (induction xs) (simp_all split: sum.splits)

lemma mapE_cong: "(\<And>x. x \<in> set xs \<Longrightarrow> f x = g x) \<Longrightarrow> mapE f xs = mapE g xs"
  by (induction xs) (simp_all split: sum.splits)

lemma mapE_length: "mapE f xs = Inr ys \<Longrightarrow> length ys = length xs"
  by (induction xs arbitrary: ys) (auto split: sum.splits)

lemma mapE_nth: "mapE f xs = Inr ys \<Longrightarrow> i < length xs \<Longrightarrow> f (xs ! i) = Inr (ys ! i)"
proof (induction xs arbitrary: ys i)
  case Nil
  then show ?case by simp
next
  case (Cons x xs)
  then show ?case by (cases i) (auto split: sum.splits)
qed

lemma distinct_sfFieldMapping:
  "distinct (map snd sfFieldMapping)" "distinct (map fst sfFieldMapping)"
  by (simp_all add: sfFieldMapping_def)

lemma fieldMapping_mkConfig: "fieldMapping (mkConfig u p ps out dept) = sfFieldMapping"
  by (simp add: mkConfig_def)

lemma statement_values:
  assumes d: "distinct (map snd (fieldMapping cfg))"
  shows "mapE (\<lambda>col. formatSqlValue dp (getProp (transformRecord cfg r) col) col dbType)
            (map snd (fieldMapping cfg))
         = mapE (\<lambda>(f, c). formatSqlValue dp
                   (if getProp r f \<noteq> JUndefined then getProp r f else JNull) c dbType)
            (fieldMapping cfg)"
proof -
  have "mapE ((\<lambda>col. formatSqlValue dp (getProp (transformRecord cfg r) col) col dbType) \<circ> snd)
            (fieldMapping cfg)
        = mapE (\<lambda>(f, c). formatSqlValue dp
                   (if getProp r f \<noteq> JUndefined then getProp r f else JNull) c dbType)
            (fieldMapping cfg)"
  proof (rule mapE_cong)
    fix x assume x: "x \<in> set (fieldMapping cfg)"
    obtain f c where e: "x = (f, c)" by (cases x)
    have "getProp (transformRecord cfg r) c
            = (if getProp r f \<noteq> JUndefined then getProp r f else JNull)"
      unfolding transformRecord_eq [OF d]
      by (rule getProp_mapped [OF d]) (use x e in simp)
    then show "((\<lambda>col. formatSqlValue dp (getProp (transformRecord cfg r) col) col dbType) \<circ> snd) x
        = (case x of (f, c) \<Rightarrow> formatSqlValue dp
                   (if getProp r f \<noteq> JUndefined then getProp r f else JNull) c dbType)"
      by (simp add: e)
  qed
  then show ?thesis by (simp add: mapE_map)
qed




text \<open>
  C6. For every input record, \<open>transformRecord\<close> returns the object whose keys are the
  destination columns of the field mapping, in the order of the field mapping, whatever
  keys the input has; each key holds the input's value for its API field when the field
  is present (an explicit \<open>null\<close> included) and \<open>null\<close> when it is absent. The function
  is a total function of its argument, with no effect and no exception.
\<close>

theorem transformRecord_keys_and_values:
  "transformRecord (mkConfig u p ps out dept) r
     = map (\<lambda>(apiField, dbColumn).
              (dbColumn, case map_of r apiField of None \<Rightarrow> JNull
                         | Some v \<Rightarrow> if v = JUndefined then JNull else v))
         sfFieldMapping
   \<and> objectKeys (transformRecord (mkConfig u p ps out dept) r) = map snd sfFieldMapping"
proof -
  have d: "distinct (map snd (fieldMapping (mkConfig u p ps out dept)))"
    by (simp only: fieldMapping_mkConfig distinct_sfFieldMapping)
  have v: "(if getProp r f \<noteq> JUndefined then getProp r f else JNull)
        = (case map_of r f of None \<Rightarrow> JNull | Some v \<Rightarrow> if v = JUndefined then JNull else v)" for f
    by (simp add: getProp_def split: option.splits)
  have e: "transformRecord (mkConfig u p ps out dept) r
     = map (\<lambda>(apiField, dbColumn).
              (dbColumn, case map_of r apiField of None \<Rightarrow> JNull
                         | Some v \<Rightarrow> if v = JUndefined then JNull else v))
         sfFieldMapping"
    unfolding transformRecord_eq [OF d] fieldMapping_mkConfig v ..
  have "map fst (map (\<lambda>(f, c). (c, h f)) fm) = map snd fm" for h :: "string \<Rightarrow> jsval" and fm :: "(string \<times> string) list"
    by (induction fm) auto
  then show ?thesis unfolding e objectKeys_def by simp
qed

text \<open>
  Both generators over a configuration of the program: the column list is the sequence of
  the values of the field mapping, and the values are formatted field by field in the same
  order.
\<close>

lemma statements_mkConfig:
  "columns (mkConfig u p ps out dept) = map snd sfFieldMapping
   \<and> generateOracleInsert dp (mkConfig u p ps out dept) r
       = (case mapE (\<lambda>(f, c). formatSqlValue dp
                      (if getProp r f \<noteq> JUndefined then getProp r f else JNull) c (Some ''oracle''))
                sfFieldMapping of
            Inl e \<Rightarrow> Inl e
          | Inr vals \<Rightarrow>
              Inr (oracleText
                     (templ (escapeSqlString
                        (if getProp r ''code'' \<noteq> JUndefined then getProp r ''code'' else JNull)))
                     (join '', '' (map snd sfFieldMapping)) (join '', '' vals)))
   \<and> generatePostgresInsert dp (mkConfig u p ps out dept) r
       = (case mapE (\<lambda>(f, c). formatSqlValue dp
                      (if getProp r f \<noteq> JUndefined then getProp r f else JNull) c (Some ''postgres''))
                sfFieldMapping of
            Inl e \<Rightarrow> Inl e
          | Inr vals \<Rightarrow>
              Inr (postgresText (join '', '' (map snd sfFieldMapping)) (join '', '' vals)))
   \<and> (case mapE (\<lambda>(f, c). formatSqlValue dp
                      (if getProp r f \<noteq> JUndefined then getProp r f else JNull) c dbType)
                sfFieldMapping of
            Inl e \<Rightarrow> True
          | Inr vals \<Rightarrow> length vals = length (map snd sfFieldMapping))"
proof -
  let ?cfg = "mkConfig u p ps out dept"
  have d: "distinct (map snd (fieldMapping ?cfg))" "distinct (map fst (fieldMapping ?cfg))"
    by (simp_all only: fieldMapping_mkConfig distinct_sfFieldMapping)
  have c: "columns ?cfg = map snd sfFieldMapping"
    using columns_eq [OF d(2)] by (simp only: fieldMapping_mkConfig)
  have code: "getProp (transformRecord ?cfg r) ''code''
      = (if getProp r ''code'' \<noteq> JUndefined then getProp r ''code'' else JNull)"
    unfolding transformRecord_eq [OF d(1)]
    by (rule getProp_mapped [OF d(1)]) (simp add: fieldMapping_mkConfig sfFieldMapping_def)
  have v: "mapE (\<lambda>col. formatSqlValue dp (getProp (transformRecord ?cfg r) col) col t)
            (map snd sfFieldMapping)
         = mapE (\<lambda>(f, c). formatSqlValue dp
                   (if getProp r f \<noteq> JUndefined then getProp r f else JNull) c t)
            sfFieldMapping" for t
    using statement_values [OF d(1), of dp r t] by (simp only: fieldMapping_mkConfig)
  have o: "generateOracleInsert dp ?cfg r
       = (case mapE (\<lambda>(f, c). formatSqlValue dp
                      (if getProp r f \<noteq> JUndefined then getProp r f else JNull) c (Some ''oracle''))
                sfFieldMapping of
            Inl e \<Rightarrow> Inl e
          | Inr vals \<Rightarrow>
              Inr (oracleText
                     (templ (escapeSqlString
                        (if getProp r ''code'' \<noteq> JUndefined then getProp r ''code'' else JNull)))
                     (join '', '' (map snd sfFieldMapping)) (join '', '' vals)))"
    unfolding generateOracleInsert_def Let_def c v code ..
  have g: "generatePostgresInsert dp ?cfg r
       = (case mapE (\<lambda>(f, c). formatSqlValue dp
                      (if getProp r f \<noteq> JUndefined then getProp r f else JNull) c (Some ''postgres''))
                sfFieldMapping of
            Inl e \<Rightarrow> Inl e
          | Inr vals \<Rightarrow>
              Inr (postgresText (join '', '' (map snd sfFieldMapping)) (join '', '' vals)))"
    unfolding generatePostgresInsert_def Let_def c v ..
  have l: "(case mapE (\<lambda>(f, c). formatSqlValue dp
                      (if getProp r f \<noteq> JUndefined then getProp r f else JNull) c dbType)
                sfFieldMapping of
            Inl e \<Rightarrow> True
          | Inr vals \<Rightarrow> length vals = length (map snd sfFieldMapping))"
    by (auto split: sum.splits dest: mapE_length)
  show ?thesis using c o g l by (intro conjI)
qed

lemma dateFields_eval:
  "dateFields = [''effectiveStartDate'', ''lastModifiedDateTime'', ''effectiveEndDate'']"
  by (simp add: dateFields_def sfFieldMapping_def dateColumns_def)

lemma parseSFDate_ok:
  assumes "dateValueOk v"
  shows "\<exists>x. parseSFDate dp v = Inr x"
proof (cases "truthy v")
  case False
  then show ?thesis by (simp add: parseSFDate_def)
next
  case True
  then obtain s where s: "v = JStr s" "s \<noteq> []"
    using assms by (cases v) (simp_all add: dateValueOk_def)
  show ?thesis
  proof (cases "matchDate s")
    case None
    then show ?thesis
      unfolding s
      by (cases "dp s")
        (simp_all add: parseSFDate_def s(2) DateParse_def newDate_def toISOString_def)
  next
    case (Some g)
    then have "\<bar>parseInt10 g\<bar> \<le> maxTime" using assms by (simp add: dateValueOk_def s)
    then show ?thesis
      unfolding s parseSFDate_match [OF Some s(2)]
      by (simp add: newDate_def toISOString_def)
  qed
qed

lemma formatSqlValue_ok:
  assumes "columnName \<in> set dateColumns \<longrightarrow> dateValueOk v"
  shows "\<exists>x. formatSqlValue dp v columnName dbType = Inr x"
proof (cases "columnName \<in> set dateColumns")
  case False
  then show ?thesis by (simp add: formatSqlValue_def)
next
  case True
  then obtain x where "parseSFDate dp v = Inr x" using assms parseSFDate_ok by blast
  then show ?thesis using True by (cases x) (simp_all add: formatSqlValue_def)
qed

lemma mapE_ok: "(\<And>x. x \<in> set xs \<Longrightarrow> \<exists>y. f x = Inr y) \<Longrightarrow> \<exists>ys. mapE f xs = Inr ys"
proof (induction xs)
  case Nil
  then show ?case by simp
next
  case (Cons a xs)
  obtain y where y: "f a = Inr y" using Cons.prems [of a] by auto
  obtain ys where ys: "mapE f xs = Inr ys" using Cons.IH Cons.prems by auto
  show ?case by (simp add: y ys)
qed

lemma values_ok:
  assumes "datesOk r"
  shows "\<exists>vals. mapE (\<lambda>(f, c). formatSqlValue dp
                    (if getProp r f \<noteq> JUndefined then getProp r f else JNull) c dbType)
                 sfFieldMapping = Inr vals"
proof (rule mapE_ok)
  fix x assume x: "x \<in> set sfFieldMapping"
  obtain f c where fc: "x = (f, c)" by (cases x)
  have "dateValueOk (if getProp r f \<noteq> JUndefined then getProp r f else JNull)"
    if d: "c \<in> set dateColumns"
  proof -
    have "f \<in> set dateFields" using x d unfolding fc dateFields_def by force
    then have "dateValueOk (getProp r f)"
      using assms by (simp add: datesOk_def list_all_iff)
    then show ?thesis by (simp add: dateValueOk_def)
  qed
  then have "\<exists>y. formatSqlValue dp
      (if getProp r f \<noteq> JUndefined then getProp r f else JNull) c dbType = Inr y"
    by (intro formatSqlValue_ok) simp
  then show "\<exists>y. (case x of (f, c) \<Rightarrow> formatSqlValue dp
      (if getProp r f \<noteq> JUndefined then getProp r f else JNull) c dbType) = Inr y"
    by (simp add: fc)
qed

lemma statements_ok:
  assumes "datesOk r"
  shows "\<exists>s. generateOracleInsert dp (mkConfig u p ps out dept) r = Inr s"
    and "\<exists>s. generatePostgresInsert dp (mkConfig u p ps out dept) r = Inr s"
proof -
  obtain vo where vo: "mapE (\<lambda>(f, c). formatSqlValue dp
                    (if getProp r f \<noteq> JUndefined then getProp r f else JNull) c (Some ''oracle''))
                 sfFieldMapping = Inr vo"
    using values_ok [OF assms] by blast
  obtain vp where vp: "mapE (\<lambda>(f, c). formatSqlValue dp
                    (if getProp r f \<noteq> JUndefined then getProp r f else JNull) c (Some ''postgres''))
                 sfFieldMapping = Inr vp"
    using values_ok [OF assms] by blast
  show "\<exists>s. generateOracleInsert dp (mkConfig u p ps out dept) r = Inr s"
    using statements_mkConfig [of u p ps out dept dp r] by (simp add: vo)
  show "\<exists>s. generatePostgresInsert dp (mkConfig u p ps out dept) r = Inr s"
    using statements_mkConfig [of u p ps out dept dp r] by (simp add: vp)
qed

lemma oracle_statement_text:
  assumes "generateOracleInsert dp (mkConfig u p ps out dept) r = Inr stmt"
  shows "\<exists>vals. length vals = length sfFieldMapping
           \<and> (\<forall>i<length sfFieldMapping.
                 formatSqlValue dp
                   (if getProp r (fst (sfFieldMapping ! i)) \<noteq> JUndefined
                    then getProp r (fst (sfFieldMapping ! i)) else JNull)
                   (snd (sfFieldMapping ! i)) (Some ''oracle'') = Inr (vals ! i))
           \<and> stmt = ''MERGE INTO job_sf_position target'' @ nl
                @ ''USING (SELECT '' @ sq
                @ templ (escapeSqlString
                    (if getProp r ''code'' \<noteq> JUndefined then getProp r ''code'' else JNull))
                @ sq @ '' AS code FROM dual) source'' @ nl
                @ ''ON (target.code = source.code)'' @ nl
                @ ''WHEN NOT MATCHED THEN'' @ nl
                @ ''    INSERT ('' @ join '', '' (map snd sfFieldMapping) @ '')'' @ nl
                @ ''    VALUES ('' @ join '', '' vals @ '');''"
proof -
  let ?F = "\<lambda>(f, c). formatSqlValue dp
              (if getProp r f \<noteq> JUndefined then getProp r f else JNull) c (Some ''oracle'')"
  have g: "generateOracleInsert dp (mkConfig u p ps out dept) r
      = (case mapE ?F sfFieldMapping of
            Inl e \<Rightarrow> Inl e
          | Inr vals \<Rightarrow>
              Inr (oracleText
                     (templ (escapeSqlString
                        (if getProp r ''code'' \<noteq> JUndefined then getProp r ''code'' else JNull)))
                     (join '', '' (map snd sfFieldMapping)) (join '', '' vals)))"
    using statements_mkConfig [of u p ps out dept dp r] by blast
  obtain vals where m: "mapE ?F sfFieldMapping = Inr vals"
    and s: "stmt = oracleText
                     (templ (escapeSqlString
                        (if getProp r ''code'' \<noteq> JUndefined then getProp r ''code'' else JNull)))
                     (join '', '' (map snd sfFieldMapping)) (join '', '' vals)"
    using assms unfolding g by (cases "mapE ?F sfFieldMapping") simp_all
  have l: "length vals = length sfFieldMapping" using m by (rule mapE_length)
  have n: "formatSqlValue dp
                   (if getProp r (fst (sfFieldMapping ! i)) \<noteq> JUndefined
                    then getProp r (fst (sfFieldMapping ! i)) else JNull)
                   (snd (sfFieldMapping ! i)) (Some ''oracle'') = Inr (vals ! i)"
    if "i < length sfFieldMapping" for i
    using mapE_nth [OF m that] by (simp add: case_prod_beta)
  show ?thesis
    using l n s unfolding oracleText_def by blast
qed

lemma postgres_statement_text:
  assumes "generatePostgresInsert dp (mkConfig u p ps out dept) r = Inr stmt"
  shows "\<exists>vals. length vals = length sfFieldMapping
           \<and> (\<forall>i<length sfFieldMapping.
                 formatSqlValue dp
                   (if getProp r (fst (sfFieldMapping ! i)) \<noteq> JUndefined
                    then getProp r (fst (sfFieldMapping ! i)) else JNull)
                   (snd (sfFieldMapping ! i)) (Some ''postgres'') = Inr (vals ! i))
           \<and> stmt = ''INSERT INTO job_sf_position ('' @ join '', '' (map snd sfFieldMapping)
                @ '')'' @ nl
                @ ''VALUES ('' @ join '', '' vals @ '')'' @ nl
                @ ''ON CONFLICT (code) DO NOTHING;''"
proof -
  let ?F = "\<lambda>(f, c). formatSqlValue dp
              (if getProp r f \<noteq> JUndefined then getProp r f else JNull) c (Some ''postgres'')"
  have g: "generatePostgresInsert dp (mkConfig u p ps out dept) r
      = (case mapE ?F sfFieldMapping of
            Inl e \<Rightarrow> Inl e
          | Inr vals \<Rightarrow>
              Inr (postgresText (join '', '' (map snd sfFieldMapping)) (join '', '' vals)))"
    using statements_mkConfig [of u p ps out dept dp r] by blast
  obtain vals where m: "mapE ?F sfFieldMapping = Inr vals"
    and s: "stmt = postgresText (join '', '' (map snd sfFieldMapping)) (join '', '' vals)"
    using assms unfolding g by (cases "mapE ?F sfFieldMapping") simp_all
  have l: "length vals = length sfFieldMapping" using m by (rule mapE_length)
  have n: "formatSqlValue dp
                   (if getProp r (fst (sfFieldMapping ! i)) \<noteq> JUndefined
                    then getProp r (fst (sfFieldMapping ! i)) else JNull)
                   (snd (sfFieldMapping ! i)) (Some ''postgres'') = Inr (vals ! i)"
    if "i < length sfFieldMapping" for i
    using mapE_nth [OF m that] by (simp add: case_prod_beta)
  show ?thesis
    using l n s unfolding postgresText_def by blast
qed


lemma sample_timestamp:
  "parseSFDate dp (JStr ''/Date(1700000000000)/'') = Inr (Some ''2023-11-14 22:13:20.000'')"
  by (simp add: parseSFDate_def matchDateAt_def skipOffset_def stripPrefix_def startsWith_def
      isDigit_def parseInt10_def natOfDigits_def digitVal_def newDate_def maxTime_def
      toISOString_def isoString_def sqlTimestamp_def date_eval)

lemma sample_dates: "datesOk engPosition" "datesOk salesPosition"
  by (simp_all add: datesOk_def dateFields_eval dateValueOk_def getProp_def engPosition_def
      salesPosition_def matchDateAt_def skipOffset_def stripPrefix_def startsWith_def
      isDigit_def parseInt10_def natOfDigits_def digitVal_def maxTime_def Let_def)

lemma list21:
  assumes "length (xs :: 'a list) = 21"
  shows "xs = [xs ! 0, xs ! 1, xs ! 2, xs ! 3, xs ! 4, xs ! 5, xs ! 6, xs ! 7, xs ! 8, xs ! 9,
               xs ! 10, xs ! 11, xs ! 12, xs ! 13, xs ! 14, xs ! 15, xs ! 16, xs ! 17, xs ! 18,
               xs ! 19, xs ! 20]"
proof -
  have "map ((!) xs) [0..<21] = xs" using map_nth [of xs] assms by simp
  moreover have "[0..<21] = [0, 1, 2, 3, 4, 5, 6, 7, 8, 9, 10, 11, 12, 13, 14, 15, 16, 17, 18,
      19, 20 :: nat]"
    by (simp add: upt_rec)
  ultimately show ?thesis by simp
qed

lemma sample_values:
  assumes l: "length vals = length sfFieldMapping"
    and n: "\<forall>i<length sfFieldMapping.
                 formatSqlValue noDateParse
                   (if getProp engPosition (fst (sfFieldMapping ! i)) \<noteq> JUndefined
                    then getProp engPosition (fst (sfFieldMapping ! i)) else JNull)
                   (snd (sfFieldMapping ! i)) d = Inr (vals ! i)"
  shows "vals = [sq @ ''X1'' @ sq,
                 (if dbTypeOf d = ''oracle''
                  then ''TO_TIMESTAMP('' @ sq @ ''2023-11-14 22:13:20.000'' @ sq @ '', '' @ sq
                         @ ''YYYY-MM-DD HH24:MI:SS.FF3'' @ sq @ '')''
                  else sq @ ''2023-11-14 22:13:20.000'' @ sq @ ''::timestamp''),
                 ''NULL'', ''NULL'', ''NULL'', ''NULL'', ''NULL'', ''NULL'', ''NULL'', ''NULL'',
                 ''NULL'', ''NULL'', ''NULL'', ''NULL'', ''NULL'', ''NULL'',
                 sq @ ''ENG-Core'' @ sq, ''NULL'', ''NULL'', ''NULL'', ''NULL'']"
proof -
  have l21: "length vals = 21" using l by (simp add: sfFieldMapping_def)
  have e: "formatSqlValue noDateParse
                   (if getProp engPosition (fst (sfFieldMapping ! i)) \<noteq> JUndefined
                    then getProp engPosition (fst (sfFieldMapping ! i)) else JNull)
                   (snd (sfFieldMapping ! i)) d = Inr (vals ! i)" if "i < 21" for i
    using n that by (simp add: sfFieldMapping_def)
  have v0: "vals ! 0 = sq @ ''X1'' @ sq"
    using e [of 0]
    by (simp add: sfFieldMapping_def engPosition_def getProp_def formatSqlValue_def
        dateColumns_def escapeSqlString_def templ_def sq_def)
  have v1: "vals ! 1 = (if dbTypeOf d = ''oracle''
                  then ''TO_TIMESTAMP('' @ sq @ ''2023-11-14 22:13:20.000'' @ sq @ '', '' @ sq
                         @ ''YYYY-MM-DD HH24:MI:SS.FF3'' @ sq @ '')''
                  else sq @ ''2023-11-14 22:13:20.000'' @ sq @ ''::timestamp'')"
    using e [of 1]
    by (cases "dbTypeOf d = ''oracle''")
      (simp_all add: sfFieldMapping_def engPosition_def getProp_def formatSqlValue_def
        dateColumns_def sample_timestamp)
  have v16: "vals ! 16 = sq @ ''ENG-Core'' @ sq"
    using e [of 16]
    by (simp add: sfFieldMapping_def engPosition_def getProp_def formatSqlValue_def
        dateColumns_def escapeSqlString_def templ_def sq_def)
  have u: "vals ! i = ''NULL''"
    if "i \<in> {2, 3, 4, 5, 6, 7, 8, 9, 10, 11, 12, 13, 14, 15, 17, 18, 19, 20}" for i
    using e [of i] that
    by (auto simp: sfFieldMapping_def engPosition_def getProp_def formatSqlValue_def)
  have v: "vals ! 2 = ''NULL''" "vals ! 3 = ''NULL''" "vals ! 4 = ''NULL''" "vals ! 5 = ''NULL''"
    "vals ! 6 = ''NULL''" "vals ! 7 = ''NULL''" "vals ! 8 = ''NULL''" "vals ! 9 = ''NULL''"
    "vals ! 10 = ''NULL''" "vals ! 11 = ''NULL''" "vals ! 12 = ''NULL''" "vals ! 13 = ''NULL''"
    "vals ! 14 = ''NULL''" "vals ! 15 = ''NULL''"
    "vals ! 17 = ''NULL''" "vals ! 18 = ''NULL''" "vals ! 19 = ''NULL''" "vals ! 20 = ''NULL''"
    by (rule u, simp)+
  show ?thesis by (subst list21 [OF l21]) (simp only: v v0 v1 v16)
qed



text \<open>
  C5. For every input record and either dialect, every statement that the generator
  returns is the fixed frame of the dialect around two lists joined by \<open>", "\<close>: the
  column list, which is the sequence of the values of the field mapping in the order of
  the field mapping, the same in both dialects, and a values list of the same length
  whose \<open>i\<close>-th entry is the value of the \<open>i\<close>-th API field (\<open>null\<close> when the record lacks
  it) formatted for the \<open>i\<close>-th column. A record whose date fields \<open>parseSFDate\<close> takes
  has a statement in both dialects.
\<close>

theorem insert_columns_follow_fieldMapping:
  "(generateOracleInsert dp (mkConfig u p ps out dept) r = Inr stmtO \<longrightarrow>
      (\<exists>vals. length vals = length sfFieldMapping
         \<and> (\<forall>i<length sfFieldMapping.
               formatSqlValue dp
                 (if getProp r (fst (sfFieldMapping ! i)) \<noteq> JUndefined
                  then getProp r (fst (sfFieldMapping ! i)) else JNull)
                 (snd (sfFieldMapping ! i)) (Some ''oracle'') = Inr (vals ! i))
         \<and> stmtO = ''MERGE INTO job_sf_position target'' @ nl
              @ ''USING (SELECT '' @ sq
              @ templ (escapeSqlString
                  (if getProp r ''code'' \<noteq> JUndefined then getProp r ''code'' else JNull))
              @ sq @ '' AS code FROM dual) source'' @ nl
              @ ''ON (target.code = source.code)'' @ nl
              @ ''WHEN NOT MATCHED THEN'' @ nl
              @ ''    INSERT ('' @ join '', '' (map snd sfFieldMapping) @ '')'' @ nl
              @ ''    VALUES ('' @ join '', '' vals @ '');''))
   \<and> (generatePostgresInsert dp (mkConfig u p ps out dept) r = Inr stmtP \<longrightarrow>
      (\<exists>vals. length vals = length sfFieldMapping
         \<and> (\<forall>i<length sfFieldMapping.
               formatSqlValue dp
                 (if getProp r (fst (sfFieldMapping ! i)) \<noteq> JUndefined
                  then getProp r (fst (sfFieldMapping ! i)) else JNull)
                 (snd (sfFieldMapping ! i)) (Some ''postgres'') = Inr (vals ! i))
         \<and> stmtP = ''INSERT INTO job_sf_position ('' @ join '', '' (map snd sfFieldMapping)
              @ '')'' @ nl
              @ ''VALUES ('' @ join '', '' vals @ '')'' @ nl
              @ ''ON CONFLICT (code) DO NOTHING;''))
   \<and> (datesOk r \<longrightarrow>
        (\<exists>s. generateOracleInsert dp (mkConfig u p ps out dept) r = Inr s)
      \<and> (\<exists>s. generatePostgresInsert dp (mkConfig u p ps out dept) r = Inr s))"
  using oracle_statement_text [of dp u p ps out dept r stmtO]
    postgres_statement_text [of dp u p ps out dept r stmtP]
    statements_ok [of r dp u p ps out dept]
  by blast

text \<open>The two statements of the sample record, in full.\<close>

theorem insert_columns_follow_fieldMapping_witness:
  "datesOk engPosition
   \<and> generateOracleInsert noDateParse sampleConfig engPosition
       = Inr (''MERGE INTO job_sf_position target'' @ nl
              @ ''USING (SELECT '' @ sq @ ''X1'' @ sq @ '' AS code FROM dual) source'' @ nl
              @ ''ON (target.code = source.code)'' @ nl
              @ ''WHEN NOT MATCHED THEN'' @ nl
              @ ''    INSERT (code, effective_start_date, cust_sub_code, cust_sub_department, ''
              @ ''last_modified_date_time, job_code, job_title, pay_range, cust_sub_department2, ''
              @ ''cost_center, external_name_localized, effective_status, external_name_vi, ''
              @ ''effective_end_date, pay_grade, Compensation_Package, department, cust_max, ''
              @ ''job_level, cust_min, externalName_en)'' @ nl
              @ ''    VALUES ('' @ sq @ ''X1'' @ sq @ '', TO_TIMESTAMP('' @ sq
              @ ''2023-11-14 22:13:20.000'' @ sq @ '', '' @ sq @ ''YYYY-MM-DD HH24:MI:SS.FF3'' @ sq
              @ ''), NULL, NULL, NULL, NULL, NULL, NULL, NULL, NULL, NULL, NULL, NULL, NULL, ''
              @ ''NULL, NULL, '' @ sq @ ''ENG-Core'' @ sq @ '', NULL, NULL, NULL, NULL);'')
   \<and> generatePostgresInsert noDateParse sampleConfig engPosition
       = Inr (''INSERT INTO job_sf_position (code, effective_start_date, cust_sub_code, ''
              @ ''cust_sub_department, last_modified_date_time, job_code, job_title, pay_range, ''
              @ ''cust_sub_department2, cost_center, external_name_localized, effective_status, ''
              @ ''external_name_vi, effective_end_date, pay_grade, Compensation_Package, ''
              @ ''department, cust_max, job_level, cust_min, externalName_en)'' @ nl
              @ ''VALUES ('' @ sq @ ''X1'' @ sq @ '', '' @ sq @ ''2023-11-14 22:13:20.000'' @ sq
              @ ''::timestamp, NULL, NULL, NULL, NULL, NULL, NULL, NULL, NULL, NULL, NULL, NULL, ''
              @ ''NULL, NULL, NULL, '' @ sq @ ''ENG-Core'' @ sq @ '', NULL, NULL, NULL, NULL)'' @ nl
              @ ''ON CONFLICT (code) DO NOTHING;'')"
proof -
  have d: "datesOk engPosition" by (rule sample_dates)
  have c: "sampleConfig = mkConfig (Some ''user'') (Some ''secret'') (Some 2) None (Some ''ENG'')"
    by (simp add: sampleConfig_def)
  note t = insert_columns_follow_fieldMapping
      [where dp = noDateParse and u = "Some ''user''" and p = "Some ''secret''" and ps = "Some 2"
         and out = None and dept = "Some ''ENG''" and r = engPosition, folded c]
  obtain so sp where so: "generateOracleInsert noDateParse sampleConfig engPosition = Inr so"
    and sp: "generatePostgresInsert noDateParse sampleConfig engPosition = Inr sp"
    using t [THEN conjunct2, THEN conjunct2, THEN mp, OF d] by blast
  obtain vo where vo: "length vo = length sfFieldMapping"
      "\<forall>i<length sfFieldMapping.
               formatSqlValue noDateParse
                 (if getProp engPosition (fst (sfFieldMapping ! i)) \<noteq> JUndefined
                  then getProp engPosition (fst (sfFieldMapping ! i)) else JNull)
                 (snd (sfFieldMapping ! i)) (Some ''oracle'') = Inr (vo ! i)"
      "so = ''MERGE INTO job_sf_position target'' @ nl
              @ ''USING (SELECT '' @ sq
              @ templ (escapeSqlString
                  (if getProp engPosition ''code'' \<noteq> JUndefined then getProp engPosition ''code''
                   else JNull))
              @ sq @ '' AS code FROM dual) source'' @ nl
              @ ''ON (target.code = source.code)'' @ nl
              @ ''WHEN NOT MATCHED THEN'' @ nl
              @ ''    INSERT ('' @ join '', '' (map snd sfFieldMapping) @ '')'' @ nl
              @ ''    VALUES ('' @ join '', '' vo @ '');''"
    using t [THEN conjunct1, THEN mp, OF so] by blast
  obtain vp where vp: "length vp = length sfFieldMapping"
      "\<forall>i<length sfFieldMapping.
               formatSqlValue noDateParse
                 (if getProp engPosition (fst (sfFieldMapping ! i)) \<noteq> JUndefined
                  then getProp engPosition (fst (sfFieldMapping ! i)) else JNull)
                 (snd (sfFieldMapping ! i)) (Some ''postgres'') = Inr (vp ! i)"
      "sp = ''INSERT INTO job_sf_position ('' @ join '', '' (map snd sfFieldMapping)
              @ '')'' @ nl
              @ ''VALUES ('' @ join '', '' vp @ '')'' @ nl
              @ ''ON CONFLICT (code) DO NOTHING;''"
    using t [THEN conjunct2, THEN conjunct1, THEN mp, OF sp] by blast
  have o: "so = ''MERGE INTO job_sf_position target'' @ nl
              @ ''USING (SELECT '' @ sq @ ''X1'' @ sq @ '' AS code FROM dual) source'' @ nl
              @ ''ON (target.code = source.code)'' @ nl
              @ ''WHEN NOT MATCHED THEN'' @ nl
              @ ''    INSERT (code, effective_start_date, cust_sub_code, cust_sub_department, ''
              @ ''last_modified_date_time, job_code, job_title, pay_range, cust_sub_department2, ''
              @ ''cost_center, external_name_localized, effective_status, external_name_vi, ''
              @ ''effective_end_date, pay_grade, Compensation_Package, department, cust_max, ''
              @ ''job_level, cust_min, externalName_en)'' @ nl
              @ ''    VALUES ('' @ sq @ ''X1'' @ sq @ '', TO_TIMESTAMP('' @ sq
              @ ''2023-11-14 22:13:20.000'' @ sq @ '', '' @ sq @ ''YYYY-MM-DD HH24:MI:SS.FF3'' @ sq
              @ ''), NULL, NULL, NULL, NULL, NULL, NULL, NULL, NULL, NULL, NULL, NULL, NULL, ''
              @ ''NULL, NULL, '' @ sq @ ''ENG-Core'' @ sq @ '', NULL, NULL, NULL, NULL);''"
    unfolding vo(3) sample_values [OF vo(1,2)]
    by (simp add: sfFieldMapping_def dbTypeOf_def engPosition_def getProp_def
        escapeSqlString_def templ_def sq_def)
  have g: "sp = ''INSERT INTO job_sf_position (code, effective_start_date, cust_sub_code, ''
              @ ''cust_sub_department, last_modified_date_time, job_code, job_title, pay_range, ''
              @ ''cust_sub_department2, cost_center, external_name_localized, effective_status, ''
              @ ''external_name_vi, effective_end_date, pay_grade, Compensation_Package, ''
              @ ''department, cust_max, job_level, cust_min, externalName_en)'' @ nl
              @ ''VALUES ('' @ sq @ ''X1'' @ sq @ '', '' @ sq @ ''2023-11-14 22:13:20.000'' @ sq
              @ ''::timestamp, NULL, NULL, NULL, NULL, NULL, NULL, NULL, NULL, NULL, NULL, NULL, ''
              @ ''NULL, NULL, NULL, '' @ sq @ ''ENG-Core'' @ sq @ '', NULL, NULL, NULL, NULL)'' @ nl
              @ ''ON CONFLICT (code) DO NOTHING;''"
    unfolding vp(3) sample_values [OF vp(1,2)]
    by (simp add: sfFieldMapping_def dbTypeOf_def sq_def)
  show ?thesis using d so sp o g by (simp only: simp_thms)
qed





lemma tsChar_not_nl: "tsChar c \<Longrightarrow> c \<noteq> CHR 0x0A"
  by (auto simp: tsChar_def isDigit_def)

lemma isoString_no_newline: "CHR 0x0A \<notin> set (isoString t)"
  using tsChar_isoDatePart [of t] tsChar_isoTimePart [of t] tsChar_not_nl
  by (auto simp: isoString_def list_all_iff)

lemma drop_length_append: "drop (length xs) (xs @ ys) = ys"
  by simp

lemma generateSqlHeader_split:
  "\<exists>pre post. length pre = 89 + length (dbTypeOf dbType)
      \<and> drop (74 + length (dbTypeOf dbType)) pre = nl @ ''-- Generated: ''
      \<and> take 1 post = nl
      \<and> (\<forall>now. generateSqlHeader cfg now startDate endDate dbType = pre @ isoString now @ post)"
proof -
  let ?u = "toUpperCase (dbTypeOf dbType)"
  let ?pre = "''-- ============================================'' @ nl
         @ ''-- SF Position Sync SQL ('' @ ?u @ '')'' @ nl @ ''-- Generated: ''"
  let ?dr = "(if \<not> falsyStr startDate \<or> \<not> falsyStr endDate
             then orElse startDate ''N/A'' @ '' to '' @ orElse endDate ''N/A''
             else ''Yesterday'')"
  let ?post = "nl @ ''-- Date Range: '' @ ?dr @ nl
         @ ''-- Department Filter: '' @ departmentFilter cfg @ ''*'' @ nl
         @ ''-- Database: '' @ ?u @ nl
         @ ''-- ============================================'' @ nl
         @ nl"
  have 1: "length ?pre = 89 + length (dbTypeOf dbType)"
    by (simp add: nl_def toUpperCase_def)
  let ?a = "''-- ============================================'' @ nl
         @ ''-- SF Position Sync SQL ('' @ ?u @ '')''"
  have a: "length ?a = 74 + length (dbTypeOf dbType)"
    by (simp add: nl_def toUpperCase_def)
  have "drop (length ?a) (?a @ (nl @ ''-- Generated: '')) = nl @ ''-- Generated: ''"
    by (rule drop_length_append)
  then have 2: "drop (74 + length (dbTypeOf dbType)) ?pre = nl @ ''-- Generated: ''"
    unfolding a by simp
  have 3: "take 1 ?post = nl" by (simp add: nl_def)
  have 4: "generateSqlHeader cfg now startDate endDate dbType = ?pre @ isoString now @ ?post" for now
    by (simp add: generateSqlHeader_def Let_def)
  show ?thesis using 1 2 3 4 by blast
qed

text \<open>
  C7. For fixed \<open>startDate\<close>, \<open>endDate\<close>, dialect and configuration, the headers generated
  at two instants agree on all the text before the timestamp and on all the text after
  it; between the two lies the timestamp of each instant, which follows the label
  \<open>-- Generated:\<close> at the start of a line, is followed by a line break and holds none.
\<close>

theorem generateSqlHeader_differs_only_in_timestamp:
  "(let k = 89 + length (dbTypeOf dbType);
        t1 = isoString now1;
        t2 = isoString now2;
        h1 = generateSqlHeader cfg now1 startDate endDate dbType;
        h2 = generateSqlHeader cfg now2 startDate endDate dbType
    in take k h1 = take k h2
       \<and> drop (k - 15) (take k h1) = nl @ ''-- Generated: ''
       \<and> take (length t1) (drop k h1) = t1
       \<and> take (length t2) (drop k h2) = t2
       \<and> drop (k + length t1) h1 = drop (k + length t2) h2
       \<and> take 1 (drop (k + length t1) h1) = nl
       \<and> CHR 0x0A \<notin> set t1 \<and> CHR 0x0A \<notin> set t2)"
proof -
  obtain pre post where l: "length pre = 89 + length (dbTypeOf dbType)"
    and g: "drop (74 + length (dbTypeOf dbType)) pre = nl @ ''-- Generated: ''"
    and p: "take 1 post = nl"
    and h: "\<And>now. generateSqlHeader cfg now startDate endDate dbType = pre @ isoString now @ post"
    using generateSqlHeader_split [of dbType cfg startDate endDate] by blast
  show ?thesis
    unfolding Let_def h
    using l g p isoString_no_newline [of now1] isoString_no_newline [of now2]
    by simp
qed

section \<open>Claims about the API service and the sync run\<close>

subsection \<open>One request and its retries\<close>

lemma fetchAttempts_success:
  assumes "attempt \<le> retryAttempts cfg" "srv (length (requests w)) = Success body"
  shows "fetchAttempts cfg srv rq attempt lastError w
           = (Inr (resultsOf body), w\<lparr>requests := requests w @ [rq]\<rparr>)"
  using assms by (subst fetchAttempts.simps) (simp add: Let_def)

lemma fetchAttempts_retry:
  assumes "attempt < retryAttempts cfg" "srv (length (requests w)) = Failure err"
    "isRetryable err"
  shows "fetchAttempts cfg srv rq attempt lastError w
           = fetchAttempts cfg srv rq (attempt + 1) (Some err)
               (w\<lparr>requests := requests w @ [rq],
                   sleeps := sleeps w @ [retryDelay cfg * 2 ^ (attempt - 1)]\<rparr>)"
  using assms by (subst fetchAttempts.simps) (simp add: Let_def)

lemma fetchAttempts_fatal:
  assumes "attempt \<le> retryAttempts cfg" "srv (length (requests w)) = Failure err"
    "\<not> (isRetryable err \<and> attempt < retryAttempts cfg)"
  shows "fetchAttempts cfg srv rq attempt lastError w
           = (Inl (throwLast (Some err)), w\<lparr>requests := requests w @ [rq]\<rparr>)"
  using assms by (subst fetchAttempts.simps) (auto simp: Let_def)

lemma fetchAttempts_files: "files (snd (fetchAttempts cfg srv rq attempt lastError w)) = files w"
proof (induction cfg srv rq attempt lastError w rule: fetchAttempts.induct)
  case (1 cfg srv rq attempt lastError w)
  show ?case
  proof (cases "attempt \<le> retryAttempts cfg")
    case False
    then show ?thesis by (subst fetchAttempts.simps) simp
  next
    case True
    show ?thesis
    proof (cases "srv (length (requests w))")
      case (Success body)
      then show ?thesis using True by (simp add: fetchAttempts_success)
    next
      case (Failure err)
      show ?thesis
      proof (cases "isRetryable err \<and> attempt < retryAttempts cfg")
        case False
        then show ?thesis using True Failure by (simp add: fetchAttempts_fatal)
      next
        case r: True
        have "files (snd (fetchAttempts cfg srv rq (attempt + 1) (Some err)
               (w\<lparr>requests := requests w @ [rq],
                   sleeps := sleeps w @ [retryDelay cfg * 2 ^ (attempt - 1)]\<rparr>)))
            = files (w\<lparr>requests := requests w @ [rq],
                   sleeps := sleeps w @ [retryDelay cfg * 2 ^ (attempt - 1)]\<rparr>)"
          using "1.IH" [OF True refl Failure r] by simp
        then show ?thesis using r Failure by (simp add: fetchAttempts_retry)
      qed
    qed
  qed
qed

text \<open>
  C4. When the first two attempts of a page request fail with retryable errors and the
  third succeeds (the attempt ceiling being at least 3, as the configured 3 is),
  \<open>fetchPositions\<close> returns the records of the third response after exactly three
  requests, all three with the same page size, offset and filter, and exactly two waits,
  of \<open>retryDelay * 2^0\<close> and \<open>retryDelay * 2^1\<close>; nothing else of the world changes, and the
  offset is the caller's.
\<close>

theorem fetchPositions_retries_twice_then_succeeds:
  assumes "3 \<le> retryAttempts cfg"
    and "srv (length (requests w)) = Failure e1" "isRetryable e1"
    and "srv (length (requests w) + 1) = Failure e2" "isRetryable e2"
    and "srv (length (requests w) + 2) = Success body"
  shows "fetchPositions h cfg srv top' skip' startDate endDate w
           = (Inr (resultsOf body),
              w\<lparr>requests := requests w @ replicate 3
                     \<lparr>topP = top', skipP = skip',
                      filterP = buildDateFilter h (length (requests w)) startDate endDate\<rparr>,
                 sleeps := sleeps w @ [retryDelay cfg * 2 ^ 0, retryDelay cfg * 2 ^ 1]\<rparr>)"
proof -
  let ?rq = "\<lparr>topP = top', skipP = skip',
              filterP = buildDateFilter h (length (requests w)) startDate endDate\<rparr>"
  let ?w1 = "w\<lparr>requests := requests w @ [?rq], sleeps := sleeps w @ [retryDelay cfg * 2 ^ (1 - 1)]\<rparr>"
  let ?w2 = "?w1\<lparr>requests := requests ?w1 @ [?rq],
                 sleeps := sleeps ?w1 @ [retryDelay cfg * 2 ^ (1 + 1 - 1)]\<rparr>"
  have a1: "fetchAttempts cfg srv ?rq 1 None w = fetchAttempts cfg srv ?rq (1 + 1) (Some e1) ?w1"
    by (rule fetchAttempts_retry) (use assms in simp_all)
  have a2: "fetchAttempts cfg srv ?rq (1 + 1) (Some e1) ?w1
              = fetchAttempts cfg srv ?rq (1 + 1 + 1) (Some e2) ?w2"
    by (rule fetchAttempts_retry) (use assms in simp_all)
  have a3: "fetchAttempts cfg srv ?rq (1 + 1 + 1) (Some e2) ?w2
              = (Inr (resultsOf body), ?w2\<lparr>requests := requests ?w2 @ [?rq]\<rparr>)"
    by (rule fetchAttempts_success) (use assms in \<open>simp_all add: numeral_3_eq_3\<close>)
  show ?thesis
    unfolding fetchPositions_def Let_def a1 a2 a3
    by (simp add: numeral_3_eq_3)
qed

subsection \<open>The pagination loop\<close>

lemma syncIter_page:
  assumes "fetchPositions h cfg srv (pageSize cfg) (skip st) startDate endDate w = (Inr positions, w1)"
    and "filterByDepartment positions (departmentFilter cfg) = Inr filteredPositions"
  shows "syncIter h cfg srv startDate endDate st w
           = (Inr (if int (length positions) < pageSize cfg
                   then st\<lparr> totalFetched := totalFetched st + length positions,
                            totalFiltered := totalFiltered st + length filteredPositions,
                            allFilteredPositions := allFilteredPositions st @ filteredPositions,
                            hasMoreData := False \<rparr>
                   else st\<lparr> totalFetched := totalFetched st + length positions,
                            totalFiltered := totalFiltered st + length filteredPositions,
                            allFilteredPositions := allFilteredPositions st @ filteredPositions,
                            page := page st + 1, skip := skip st + pageSize cfg \<rparr>), w1)"
  using assms by (simp add: syncIter_def Let_def)

lemma syncIter_fetch_error:
  assumes "fetchPositions h cfg srv (pageSize cfg) (skip st) startDate endDate w = (Inl e, w1)"
  shows "syncIter h cfg srv startDate endDate st w = (Inl e, w1)"
  using assms by (simp add: syncIter_def)

lemma fetchPositions_first_success:
  assumes "1 \<le> retryAttempts cfg" "srv (length (requests w)) = Success body"
  shows "fetchPositions h cfg srv top' skip' startDate endDate w
           = (Inr (resultsOf body),
              w\<lparr>requests := requests w @
                   [\<lparr>topP = top', skipP = skip',
                     filterP = buildDateFilter h (length (requests w)) startDate endDate\<rparr>]\<rparr>)"
  unfolding fetchPositions_def Let_def
  by (rule fetchAttempts_success) (use assms in simp_all)

lemma syncLoop_done:
  "\<not> hasMoreData st \<Longrightarrow> syncLoop h cfg srv startDate endDate st w = Some (Inr st, w)"
  by (subst syncLoop.simps) simp

lemma syncLoop_step:
  assumes "hasMoreData st" "syncIter h cfg srv startDate endDate st w = (Inr st1, w1)"
  shows "syncLoop h cfg srv startDate endDate st w = syncLoop h cfg srv startDate endDate st1 w1"
  using assms by (subst syncLoop.simps) simp

lemma syncLoop_error:
  assumes "hasMoreData st" "syncIter h cfg srv startDate endDate st w = (Inl e, w1)"
  shows "syncLoop h cfg srv startDate endDate st w = Some (Inl e, w1)"
  using assms by (subst syncLoop.simps) simp

lemma filterByDepartment_Nil: "filterByDepartment [] pre = Inr []"
  by (simp add: filterByDepartment_def)

lemma departmentMatches_ok:
  "departmentOk pos \<Longrightarrow> departmentMatches pre pos = Inr (startsWith (departmentText pos) pre)"
  by (cases "getProp pos ''department''")
    (auto simp: departmentOk_def departmentMatches_def departmentText_def Let_def)

lemma filterE_total:
  "(\<And>x. x \<in> set xs \<Longrightarrow> f x = Inr (g x)) \<Longrightarrow> filterE f xs = Inr (filter g xs)"
  by (induction xs) simp_all

lemma filterByDepartment_ok:
  "list_all departmentOk ps \<Longrightarrow>
     filterByDepartment ps pre = Inr (filter (\<lambda>pos. startsWith (departmentText pos) pre) ps)"
  unfolding filterByDepartment_def
  by (rule filterE_total) (simp add: list_all_iff departmentMatches_ok)

lemma syncLoop_stops_on_empty:
  assumes "1 \<le> retryAttempts cfg" "srv (length (requests w)) = Success body"
    "resultsOf body = []" "0 < pageSize cfg" "hasMoreData st"
  shows "syncLoop h cfg srv startDate endDate st w
           = Some (Inr (st\<lparr>hasMoreData := False\<rparr>),
                   w\<lparr>requests := requests w @
                        [\<lparr>topP = pageSize cfg, skipP = skip st,
                          filterP = buildDateFilter h (length (requests w)) startDate endDate\<rparr>]\<rparr>)"
proof -
  have f: "fetchPositions h cfg srv (pageSize cfg) (skip st) startDate endDate w
           = (Inr [],
              w\<lparr>requests := requests w @
                   [\<lparr>topP = pageSize cfg, skipP = skip st,
                     filterP = buildDateFilter h (length (requests w)) startDate endDate\<rparr>]\<rparr>)"
    using fetchPositions_first_success [of cfg srv w body h "pageSize cfg" "skip st"
        startDate endDate] assms(1,2,3)
    by simp
  have i: "syncIter h cfg srv startDate endDate st w
           = (Inr (st\<lparr>hasMoreData := False\<rparr>),
              w\<lparr>requests := requests w @
                   [\<lparr>topP = pageSize cfg, skipP = skip st,
                     filterP = buildDateFilter h (length (requests w)) startDate endDate\<rparr>]\<rparr>)"
    using syncIter_page [OF f filterByDepartment_Nil] assms(4) by simp
  show ?thesis
    unfolding syncLoop_step [OF assms(5) i] by (rule syncLoop_done) simp
qed







lemma syncLoop_full_page:
  assumes "1 \<le> retryAttempts cfg" "hasMoreData st"
    and "length (requests w) = n" "srv n = Success (Results p)"
    and "\<not> int (length p) < pageSize cfg"
    and "filterByDepartment p (departmentFilter cfg) = Inr f"
  shows "syncLoop h cfg srv startDate endDate st w
           = syncLoop h cfg srv startDate endDate
               (st\<lparr> totalFetched := totalFetched st + length p,
                     totalFiltered := totalFiltered st + length f,
                     allFilteredPositions := allFilteredPositions st @ f,
                     page := page st + 1, skip := skip st + pageSize cfg \<rparr>)
               (w\<lparr>requests := requests w @
                     [\<lparr>topP = pageSize cfg, skipP = skip st,
                       filterP = buildDateFilter h n startDate endDate\<rparr>]\<rparr>)"
proof -
  have f: "fetchPositions h cfg srv (pageSize cfg) (skip st) startDate endDate w
           = (Inr p,
              w\<lparr>requests := requests w @
                   [\<lparr>topP = pageSize cfg, skipP = skip st,
                     filterP = buildDateFilter h n startDate endDate\<rparr>]\<rparr>)"
    using fetchPositions_first_success [of cfg srv w "Results p" h "pageSize cfg" "skip st"
        startDate endDate] assms(1,3,4)
    by (simp add: resultsOf_def)
  show ?thesis
    by (rule syncLoop_step [OF assms(2)]) (use syncIter_page [OF f assms(6)] assms(5) in simp)
qed

lemma syncLoop_short_page:
  assumes "1 \<le> retryAttempts cfg" "hasMoreData st"
    and "length (requests w) = n" "srv n = Success (Results p)"
    and "int (length p) < pageSize cfg"
    and "filterByDepartment p (departmentFilter cfg) = Inr f"
  shows "syncLoop h cfg srv startDate endDate st w
           = Some (Inr (st\<lparr> totalFetched := totalFetched st + length p,
                           totalFiltered := totalFiltered st + length f,
                           allFilteredPositions := allFilteredPositions st @ f,
                           hasMoreData := False \<rparr>),
                   w\<lparr>requests := requests w @
                     [\<lparr>topP = pageSize cfg, skipP = skip st,
                       filterP = buildDateFilter h n startDate endDate\<rparr>]\<rparr>)"
proof -
  have f: "fetchPositions h cfg srv (pageSize cfg) (skip st) startDate endDate w
           = (Inr p,
              w\<lparr>requests := requests w @
                   [\<lparr>topP = pageSize cfg, skipP = skip st,
                     filterP = buildDateFilter h n startDate endDate\<rparr>]\<rparr>)"
    using fetchPositions_first_success [of cfg srv w "Results p" h "pageSize cfg" "skip st"
        startDate endDate] assms(1,3,4)
    by (simp add: resultsOf_def)
  have i: "syncIter h cfg srv startDate endDate st w
      = (Inr (st\<lparr> totalFetched := totalFetched st + length p,
                           totalFiltered := totalFiltered st + length f,
                           allFilteredPositions := allFilteredPositions st @ f,
                           hasMoreData := False \<rparr>),
                   w\<lparr>requests := requests w @
                     [\<lparr>topP = pageSize cfg, skipP = skip st,
                       filterP = buildDateFilter h n startDate endDate\<rparr>]\<rparr>)"
    using syncIter_page [OF f assms(6)] assms(5) by simp
  show ?thesis
    unfolding syncLoop_step [OF assms(2) i] by (rule syncLoop_done) simp
qed

text \<open>
  C3 (as amended). For every page size \<open>N\<close> and every server that answers the next four
  requests with pages of sizes \<open>N\<close>, \<open>N\<close>, \<open>N\<close> and \<open>k < N\<close> (each at the first attempt, the
  \<open>department\<close> of every record a string or missing), the pagination loop sends exactly
  these four requests, at the offsets \<open>0\<close>, \<open>N\<close>, \<open>2N\<close> and \<open>3N\<close>, and ends with
  \<open>3N + k\<close> records fetched: it goes on after each full page and stops at the first page
  that is shorter than the page size.
\<close>

theorem syncLoop_four_pages:
  assumes ra: "1 \<le> retryAttempts cfg" and ps: "pageSize cfg = int N"
    and r0: "srv (length (requests w)) = Success (Results p0)"
    and r1: "srv (length (requests w) + 1) = Success (Results p1)"
    and r2: "srv (length (requests w) + 2) = Success (Results p2)"
    and r3: "srv (length (requests w) + 3) = Success (Results p3)"
    and len: "length p0 = N" "length p1 = N" "length p2 = N" "length p3 = k" "k < N"
    and ok: "list_all departmentOk (p0 @ p1 @ p2 @ p3)"
  shows "syncLoop h cfg srv startDate endDate initState w
           = Some (Inr \<lparr> allFilteredPositions =
                            filter (\<lambda>pos. startsWith (departmentText pos) (departmentFilter cfg))
                              (p0 @ p1 @ p2 @ p3),
                          page = 4, skip = 3 * int N, totalFetched = 3 * N + k,
                          totalFiltered =
                            length (filter
                              (\<lambda>pos. startsWith (departmentText pos) (departmentFilter cfg))
                              (p0 @ p1 @ p2 @ p3)),
                          hasMoreData = False \<rparr>,
                   w\<lparr>requests := requests w @
                      [\<lparr>topP = int N, skipP = 0,
                        filterP = buildDateFilter h (length (requests w)) startDate endDate\<rparr>,
                       \<lparr>topP = int N, skipP = int N,
                        filterP = buildDateFilter h (length (requests w) + 1) startDate endDate\<rparr>,
                       \<lparr>topP = int N, skipP = 2 * int N,
                        filterP = buildDateFilter h (length (requests w) + 2) startDate endDate\<rparr>,
                       \<lparr>topP = int N, skipP = 3 * int N,
                        filterP = buildDateFilter h (length (requests w) + 3) startDate endDate\<rparr>]\<rparr>)"
proof -
  let ?m = "\<lambda>pos. startsWith (departmentText pos) (departmentFilter cfg)"
  let ?f0 = "filter ?m p0" and ?f1 = "filter ?m p1" and ?f2 = "filter ?m p2" and ?f3 = "filter ?m p3"
  have f0: "filterByDepartment p0 (departmentFilter cfg) = Inr ?f0"
    and f1: "filterByDepartment p1 (departmentFilter cfg) = Inr ?f1"
    and f2: "filterByDepartment p2 (departmentFilter cfg) = Inr ?f2"
    and f3: "filterByDepartment p3 (departmentFilter cfg) = Inr ?f3"
    using ok by (simp_all add: filterByDepartment_ok)
  let ?rq = "\<lambda>i s. \<lparr>topP = int N, skipP = s,
                     filterP = buildDateFilter h i startDate endDate\<rparr>"
  let ?s1 = "\<lparr> allFilteredPositions = ?f0, page = 2, skip = int N, totalFetched = N,
               totalFiltered = length ?f0, hasMoreData = True \<rparr>"
  let ?w1 = "w\<lparr>requests := requests w @ [?rq (length (requests w)) 0]\<rparr>"
  let ?s2 = "\<lparr> allFilteredPositions = ?f0 @ ?f1, page = 3, skip = 2 * int N, totalFetched = 2 * N,
               totalFiltered = length ?f0 + length ?f1, hasMoreData = True \<rparr>"
  let ?w2 = "w\<lparr>requests := requests w @ [?rq (length (requests w)) 0, ?rq (length (requests w) + 1) (int N)]\<rparr>"
  let ?s3 = "\<lparr> allFilteredPositions = ?f0 @ ?f1 @ ?f2, page = 4, skip = 3 * int N,
               totalFetched = 3 * N, totalFiltered = length ?f0 + length ?f1 + length ?f2,
               hasMoreData = True \<rparr>"
  let ?w3 = "w\<lparr>requests := requests w @ [?rq (length (requests w)) 0, ?rq (length (requests w) + 1) (int N), ?rq (length (requests w) + 2) (2 * int N)]\<rparr>"
  have full: "\<not> int N < pageSize cfg" and short: "int k < pageSize cfg"
    using ps len(5) by simp_all
  have n4: "(4::nat) = Suc (Suc (Suc (Suc 0)))" by simp
  have 1: "syncLoop h cfg srv startDate endDate initState w
             = syncLoop h cfg srv startDate endDate ?s1 ?w1"
    using syncLoop_full_page [of cfg initState w "length (requests w)" srv p0 ?f0 h startDate endDate] ra r0 f0 full len(1)
    by (simp add: initState_def ps numeral_2_eq_2)
  have 2: "syncLoop h cfg srv startDate endDate ?s1 ?w1
             = syncLoop h cfg srv startDate endDate ?s2 ?w2"
    using syncLoop_full_page [of cfg ?s1 ?w1 "length (requests w) + 1" srv p1 ?f1 h startDate endDate] ra r1 f1 full len(2)
    by (simp add: ps numeral_2_eq_2 numeral_3_eq_3)
  have 3: "syncLoop h cfg srv startDate endDate ?s2 ?w2
             = syncLoop h cfg srv startDate endDate ?s3 ?w3"
    using syncLoop_full_page [of cfg ?s2 ?w2 "length (requests w) + 2" srv p2 ?f2 h startDate endDate] ra r2 f2 full len(3)
    by (simp add: ps numeral_3_eq_3 n4)
  have 4: "syncLoop h cfg srv startDate endDate ?s3 ?w3
           = Some (Inr \<lparr> allFilteredPositions = ?f0 @ ?f1 @ ?f2 @ ?f3, page = 4,
                          skip = 3 * int N, totalFetched = 3 * N + k,
                          totalFiltered = length ?f0 + length ?f1 + length ?f2 + length ?f3,
                          hasMoreData = False \<rparr>,
                   w\<lparr>requests := requests w @
                      [?rq (length (requests w)) 0, ?rq (length (requests w) + 1) (int N),
                       ?rq (length (requests w) + 2) (2 * int N),
                       ?rq (length (requests w) + 3) (3 * int N)]\<rparr>)"
    using syncLoop_short_page [of cfg ?s3 ?w3 "length (requests w) + 3" srv p3 ?f3 h startDate endDate] ra r3 f3 short len(4)
    by (simp add: ps)
  show ?thesis unfolding 1 2 3 4 by simp
qed

subsection \<open>Files are written after the loop only\<close>

lemma fetchPositions_files:
  "files (snd (fetchPositions h cfg srv top' skip' startDate endDate w)) = files w"
  by (simp add: fetchPositions_def Let_def fetchAttempts_files)

lemma syncIter_files: "files (snd (syncIter h cfg srv startDate endDate st w)) = files w"
proof -
  obtain r w1 where f: "fetchPositions h cfg srv (pageSize cfg) (skip st) startDate endDate w = (r, w1)"
    by (cases "fetchPositions h cfg srv (pageSize cfg) (skip st) startDate endDate w")
  then have w1: "files w1 = files w"
    using fetchPositions_files [of h cfg srv "pageSize cfg" "skip st" startDate endDate w] by simp
  show ?thesis
  proof (cases r)
    case (Inl e)
    then show ?thesis using f w1 by (simp add: syncIter_def)
  next
    case (Inr positions)
    show ?thesis
    proof (cases "filterByDepartment positions (departmentFilter cfg)")
      case (Inl e)
      then show ?thesis using f w1 Inr by (simp add: syncIter_def Let_def)
    next
      case r: (Inr filteredPositions)
      show ?thesis using f w1 Inr by (simp add: syncIter_page [OF _ r])
    qed
  qed
qed

lemma syncLoop_result:
  assumes "syncLoop h cfg srv startDate endDate st w = Some y"
  shows "files (snd y) = files w \<and> (\<forall>st'. fst y = Inr st' \<longrightarrow> \<not> hasMoreData st')"
proof (rule syncLoop.raw_induct
    [where P = "\<lambda>h cfg srv startDate endDate st w y.
       files (snd y) = files w \<and> (\<forall>st'. fst y = Inr st' \<longrightarrow> \<not> hasMoreData st')", OF _ assms])
  fix loop h cfg srv startDate endDate st w y
  assume IH: "\<And>a b c d e f g y. loop a b c d e f g = Some y \<Longrightarrow>
      files (snd y) = files g \<and> (\<forall>st'. fst y = Inr st' \<longrightarrow> \<not> hasMoreData st')"
    and eq: "(if hasMoreData st
      then case syncIter h cfg srv startDate endDate st w of
           (Inl e, w1) \<Rightarrow> Some (Inl e, w1)
           | (Inr st1, w1) \<Rightarrow> loop h cfg srv startDate endDate st1 w1
      else Some (Inr st, w)) = Some y"
  show "files (snd y) = files w \<and> (\<forall>st'. fst y = Inr st' \<longrightarrow> \<not> hasMoreData st')"
  proof (cases "hasMoreData st")
    case False
    then show ?thesis using eq by auto
  next
    case True
    obtain r w1 where i: "syncIter h cfg srv startDate endDate st w = (r, w1)"
      by (cases "syncIter h cfg srv startDate endDate st w")
    then have w1: "files w1 = files w"
      using syncIter_files [of h cfg srv startDate endDate st w] by simp
    show ?thesis
    proof (cases r)
      case (Inl e)
      then show ?thesis using eq True i w1 by auto
    next
      case (Inr st1)
      then have "loop h cfg srv startDate endDate st1 w1 = Some y"
        using eq True i by simp
      then have "files (snd y) = files w1 \<and> (\<forall>st'. fst y = Inr st' \<longrightarrow> \<not> hasMoreData st')"
        by (rule IH)
      then show ?thesis using w1 by simp
    qed
  qed
qed

lemma loopReaches_files:
  "loopReaches h cfg srv startDate endDate c c' \<Longrightarrow> files (snd c') = files (snd c)"
proof (induction rule: loopReaches.induct)
  case atStart
  show ?case by simp
next
  case (afterPass st w st1 w1)
  then show ?case using syncIter_files [of h cfg srv startDate endDate st w] by simp
qed

lemma loopReaches_syncLoop:
  "loopReaches h cfg srv startDate endDate c c' \<Longrightarrow>
     syncLoop h cfg srv startDate endDate (fst c) (snd c)
       = syncLoop h cfg srv startDate endDate (fst c') (snd c')"
proof (induction rule: loopReaches.induct)
  case atStart
  show ?case by simp
next
  case (afterPass st w st1 w1)
  then show ?case using syncLoop_step [of st h cfg srv startDate endDate w st1 w1] by simp
qed

lemma ensureOutputDirectory_files: "files (ensureOutputDirectory h p w) = files w"
  by (simp add: ensureOutputDirectory_def Let_def)

lemma writeOutput_files:
  "writeOutput h cfg startDate endDate st w = (res, w') \<Longrightarrow>
     (case res of
        Inl e \<Rightarrow> files w' = files w
      | Inr r \<Rightarrow> \<exists>oc pc. files w' = files w @ [(oracleFile r, oc), (postgresFile r, pc)])"
  by (auto simp: writeOutput_def Let_def split: sum.splits)

text \<open>
  C8. In every sync run in which the fetch of a page throws (a failure that is not
  retryable, or the last attempt failing), \<open>syncPositions\<close> ends with that same error
  and the run has written no file. Whenever \<open>syncPositions\<close> returns, either it returns an
  error and has written no file, or the pagination loop has run to its end
  (\<open>hasMoreData\<close> false, no file written until then) and exactly the two files of the
  result, the Oracle one and then the PostgreSQL one, have been written after it.
\<close>

theorem syncPositions_writes_after_loop_only:
  "(validateConfig cfg = None
      \<and> loopReaches h cfg srv startDate endDate
           (initState, ensureOutputDirectory h (outputFile cfg) w) (st, w0)
      \<and> hasMoreData st
      \<and> fetchPositions h cfg srv (pageSize cfg) (skip st) startDate endDate w0 = (Inl e, w1)
    \<longrightarrow> syncPositions h cfg srv startDate endDate w = Some (Inl e, w1) \<and> files w1 = files w)
   \<and> (syncPositions h cfg srv startDate endDate w = Some (res, w')
    \<longrightarrow> (case res of
           Inl e' \<Rightarrow> files w' = files w
         | Inr r \<Rightarrow>
             \<exists>st' w2 oc pc.
               syncLoop h cfg srv startDate endDate initState
                 (ensureOutputDirectory h (outputFile cfg) w) = Some (Inr st', w2)
               \<and> \<not> hasMoreData st' \<and> files w2 = files w
               \<and> files w' = files w @ [(oracleFile r, oc), (postgresFile r, pc)]))"
proof (intro conjI impI)
  assume a: "validateConfig cfg = None
      \<and> loopReaches h cfg srv startDate endDate
           (initState, ensureOutputDirectory h (outputFile cfg) w) (st, w0)
      \<and> hasMoreData st
      \<and> fetchPositions h cfg srv (pageSize cfg) (skip st) startDate endDate w0 = (Inl e, w1)"
  then have v: "validateConfig cfg = None"
    and reach: "loopReaches h cfg srv startDate endDate
           (initState, ensureOutputDirectory h (outputFile cfg) w) (st, w0)"
    and more: "hasMoreData st"
    and fail: "fetchPositions h cfg srv (pageSize cfg) (skip st) startDate endDate w0 = (Inl e, w1)"
    by simp_all
  have "syncLoop h cfg srv startDate endDate initState (ensureOutputDirectory h (outputFile cfg) w)
          = syncLoop h cfg srv startDate endDate st w0"
    using loopReaches_syncLoop [OF reach] by simp
  also have "\<dots> = Some (Inl e, w1)"
    by (rule syncLoop_error [OF more syncIter_fetch_error [OF fail]])
  finally have l: "syncLoop h cfg srv startDate endDate initState
      (ensureOutputDirectory h (outputFile cfg) w) = Some (Inl e, w1)" .
  show "syncPositions h cfg srv startDate endDate w = Some (Inl e, w1)"
    by (simp add: syncPositions_def v l)
  have "files w1 = files w0"
    using fetchPositions_files [of h cfg srv "pageSize cfg" "skip st" startDate endDate w0] fail
    by simp
  also have "\<dots> = files (ensureOutputDirectory h (outputFile cfg) w)"
    using loopReaches_files [OF reach] by simp
  finally show "files w1 = files w" by (simp add: ensureOutputDirectory_files)
next
  assume run: "syncPositions h cfg srv startDate endDate w = Some (res, w')"
  let ?w0 = "ensureOutputDirectory h (outputFile cfg) w"
  show "case res of
           Inl e' \<Rightarrow> files w' = files w
         | Inr r \<Rightarrow>
             \<exists>st' w2 oc pc.
               syncLoop h cfg srv startDate endDate initState ?w0 = Some (Inr st', w2)
               \<and> \<not> hasMoreData st' \<and> files w2 = files w
               \<and> files w' = files w @ [(oracleFile r, oc), (postgresFile r, pc)]"
  proof (cases "validateConfig cfg")
    case (Some e')
    then show ?thesis using run by (auto simp: syncPositions_def)
  next
    case None
    show ?thesis
    proof (cases "syncLoop h cfg srv startDate endDate initState ?w0")
      case n: None
      then show ?thesis using run None by (simp add: syncPositions_def)
    next
      case (Some y)
      obtain lr w2 where y: "y = (lr, w2)" by (cases y)
      have inv: "files w2 = files w" "\<And>st'. lr = Inr st' \<Longrightarrow> \<not> hasMoreData st'"
        using syncLoop_result [OF Some] by (simp_all add: y ensureOutputDirectory_files)
      show ?thesis
      proof (cases lr)
        case (Inl e')
        then show ?thesis using run None Some y inv(1) by (auto simp: syncPositions_def)
      next
        case (Inr st')
        then have wo: "writeOutput h cfg startDate endDate st' w2 = (res, w')"
          using run None Some y by (simp add: syncPositions_def)
        show ?thesis
        proof (cases res)
          case e: (Inl e')
          then show ?thesis using writeOutput_files [OF wo] inv(1) by simp
        next
          case (Inr r)
          then obtain oc pc where "files w' = files w2 @ [(oracleFile r, oc), (postgresFile r, pc)]"
            using writeOutput_files [OF wo] by auto
          then show ?thesis
            using Inr \<open>lr = Inr st'\<close> Some y inv by auto
        qed
      qed
    qed
  qed
qed

section \<open>Instances\<close>

text \<open>The PostgreSQL header at the epoch and at 1700000000000.\<close>

theorem generateSqlHeader_differs_only_in_timestamp_witness:
  "take 97 (generateSqlHeader (mkConfig None None None None (Some ''ENG'')) 0 None
              (Some ''2024-01-31'') (Some ''postgres''))
     = take 97 (generateSqlHeader (mkConfig None None None None (Some ''ENG'')) 1700000000000 None
              (Some ''2024-01-31'') (Some ''postgres''))
   \<and> take 24 (drop 97 (generateSqlHeader (mkConfig None None None None (Some ''ENG'')) 0 None
              (Some ''2024-01-31'') (Some ''postgres''))) = ''1970-01-01T00:00:00.000Z''
   \<and> take 24 (drop 97 (generateSqlHeader (mkConfig None None None None (Some ''ENG''))
              1700000000000 None (Some ''2024-01-31'') (Some ''postgres'')))
       = ''2023-11-14T22:13:20.000Z''
   \<and> drop 121 (generateSqlHeader (mkConfig None None None None (Some ''ENG'')) 0 None
              (Some ''2024-01-31'') (Some ''postgres''))
     = drop 121 (generateSqlHeader (mkConfig None None None None (Some ''ENG'')) 1700000000000 None
              (Some ''2024-01-31'') (Some ''postgres''))"
proof -
  have t: "isoString 0 = ''1970-01-01T00:00:00.000Z''"
    "isoString 1700000000000 = ''2023-11-14T22:13:20.000Z''"
    by (simp_all add: isoString_def date_eval)
  have k: "89 + length (dbTypeOf (Some ''postgres'')) = 97" by (simp add: dbTypeOf_def)
  have l: "length (isoString 0) = 24" "length (isoString 1700000000000) = 24"
    by (simp_all add: t)
  have s: "97 + 24 = (121::nat)" by simp
  note th = generateSqlHeader_differs_only_in_timestamp
      [of "Some ''postgres''" 0 1700000000000 "mkConfig None None None None (Some ''ENG'')"
          None "Some ''2024-01-31''", unfolded Let_def k l s]
  from th show ?thesis unfolding t by blast
qed

lemma sampleConfig_fields:
  "retryAttempts sampleConfig = 3" "retryDelay sampleConfig = 1000" "pageSize sampleConfig = 2"
  "departmentFilter sampleConfig = ''ENG''" "outputFile sampleConfig = ''output/positions.sql''"
  "validateConfig sampleConfig = None" "fieldMapping sampleConfig = sfFieldMapping"
  by (simp_all add: sampleConfig_def mkConfig_def orElse_def validateConfig_def falsyStr_def)

lemma buildDateFilter_sample: "buildDateFilter sampleHost n None None = sampleFilter"
  by (simp add: buildDateFilter_def formatDate_def falsyStr_def sampleHost_def sampleFilter_def)

text \<open>The configured ceiling 3 and delay 1000: the waits are 1000 and 2000.\<close>

theorem fetchPositions_retries_twice_then_succeeds_witness:
  "3 \<le> retryAttempts sampleConfig \<and> isRetryable connReset
   \<and> fetchPositions sampleHost sampleConfig flakyServer 2 4 None None emptyWorld
       = (Inr [engPosition],
          \<lparr> requests = replicate 3
                \<lparr>topP = 2, skipP = 4, filterP = sampleFilter\<rparr>,
            sleeps = [1000, 2000], dirs = [], files = [] \<rparr>)"
proof -
  have a: "3 \<le> retryAttempts sampleConfig" by (simp add: sampleConfig_fields)
  have r: "isRetryable connReset" by (simp add: isRetryable_def connReset_def)
  have s: "flakyServer (length (requests emptyWorld)) = Failure connReset"
    "flakyServer (length (requests emptyWorld) + 1) = Failure connReset"
    "flakyServer (length (requests emptyWorld) + 2) = Success (Results [engPosition])"
    by (simp_all add: flakyServer_def emptyWorld_def)
  show ?thesis
    using fetchPositions_retries_twice_then_succeeds
      [OF a s(1) r s(2) r s(3), of sampleHost 2 4 None None] a r
    by (simp add: sampleConfig_fields resultsOf_def emptyWorld_def buildDateFilter_sample)
qed

lemma sample_departments: "departmentOk engPosition" "departmentOk salesPosition"
  "startsWith (departmentText engPosition) ''ENG''"
  "\<not> startsWith (departmentText salesPosition) ''ENG''"
  by (simp_all add: departmentOk_def departmentText_def getProp_def engPosition_def
      salesPosition_def startsWith_def)

text \<open>The page size 2 and pages of 2, 2, 2 and 1 records: 7 records, 4 requests.\<close>

theorem syncLoop_four_pages_witness:
  "(1::nat) < 2
   \<and> list_all departmentOk
        ([engPosition, salesPosition] @ [engPosition, salesPosition]
           @ [engPosition, salesPosition] @ [engPosition])
   \<and> syncLoop sampleHost sampleConfig pagesServer None None initState emptyWorld
       = Some (Inr \<lparr> allFilteredPositions = [engPosition, engPosition, engPosition, engPosition],
                      page = 4, skip = 6, totalFetched = 7, totalFiltered = 4,
                      hasMoreData = False \<rparr>,
               \<lparr> requests =
                   [\<lparr>topP = 2, skipP = 0, filterP = sampleFilter\<rparr>,
                    \<lparr>topP = 2, skipP = 2, filterP = sampleFilter\<rparr>,
                    \<lparr>topP = 2, skipP = 4, filterP = sampleFilter\<rparr>,
                    \<lparr>topP = 2, skipP = 6, filterP = sampleFilter\<rparr>],
                 sleeps = [], dirs = [], files = [] \<rparr>)"
proof -
  have ra: "1 \<le> retryAttempts sampleConfig" by (simp add: sampleConfig_fields)
  have ps: "pageSize sampleConfig = int 2" by (simp add: sampleConfig_fields)
  have s: "pagesServer (length (requests emptyWorld)) = Success (Results [engPosition, salesPosition])"
    "pagesServer (length (requests emptyWorld) + 1) = Success (Results [engPosition, salesPosition])"
    "pagesServer (length (requests emptyWorld) + 2) = Success (Results [engPosition, salesPosition])"
    "pagesServer (length (requests emptyWorld) + 3) = Success (Results [engPosition])"
    by (simp_all add: pagesServer_def emptyWorld_def)
  have l: "length [engPosition, salesPosition] = 2" "length [engPosition] = 1" "(1::nat) < 2"
    by simp_all
  have ok: "list_all departmentOk
        ([engPosition, salesPosition] @ [engPosition, salesPosition]
           @ [engPosition, salesPosition] @ [engPosition])"
    by (simp add: sample_departments)
  show ?thesis
    using syncLoop_four_pages
      [OF ra ps s(1) s(2) s(3) s(4) l(1) l(1) l(1) l(2) l(3) ok, of sampleHost None None] ok
    by (simp add: emptyWorld_def buildDateFilter_sample sampleConfig_fields sample_departments)
qed

text \<open>
  A page whose first record has the number 5 for a department: \<open>(5).startsWith\<close> is no
  function, the first pass throws, and of the pages of sizes 2, 2, 2 and 1 only the first
  is requested.
\<close>

theorem syncLoop_throws_on_department:
  "syncLoop sampleHost sampleConfig oddServer None None initState emptyWorld
     = Some (Inl (TypeError ''department.startsWith is not a function''),
             \<lparr> requests = [\<lparr>topP = 2, skipP = 0, filterP = sampleFilter\<rparr>], sleeps = [],
               dirs = [], files = [] \<rparr>)"
proof -
  have f: "fetchPositions sampleHost sampleConfig oddServer (pageSize sampleConfig)
             (skip initState) None None emptyWorld
      = (Inr [oddPosition, salesPosition],
         \<lparr> requests = [\<lparr>topP = 2, skipP = 0, filterP = sampleFilter\<rparr>], sleeps = [],
           dirs = [], files = [] \<rparr>)"
    using fetchPositions_first_success
      [of sampleConfig oddServer emptyWorld "Results [oddPosition, salesPosition]" sampleHost
        "pageSize sampleConfig" "skip initState" None None]
    by (simp add: sampleConfig_fields oddServer_def emptyWorld_def resultsOf_def initState_def
        buildDateFilter_sample)
  have m: "filterByDepartment [oddPosition, salesPosition] (departmentFilter sampleConfig)
      = Inl (TypeError ''department.startsWith is not a function'')"
    by (simp add: filterByDepartment_def departmentMatches_def oddPosition_def getProp_def)
  have i: "syncIter sampleHost sampleConfig oddServer None None initState emptyWorld
      = (Inl (TypeError ''department.startsWith is not a function''),
         \<lparr> requests = [\<lparr>topP = 2, skipP = 0, filterP = sampleFilter\<rparr>], sleeps = [],
           dirs = [], files = [] \<rparr>)"
    by (simp add: syncIter_def f m)
  have h: "hasMoreData initState" by (simp add: initState_def)
  show ?thesis by (rule syncLoop_error [OF h i])
qed



lemma sample_directory:
  "ensureOutputDirectory sampleHost (outputFile sampleConfig) emptyWorld
     = \<lparr> requests = [], sleeps = [], dirs = [''output''], files = [] \<rparr>"
  by (simp add: ensureOutputDirectory_def sampleHost_def emptyWorld_def Let_def)

lemma notFound_fetch:
  "fetchPositions sampleHost sampleConfig notFoundServer (pageSize sampleConfig) (skip initState)
      None None \<lparr> requests = [], sleeps = [], dirs = [''output''], files = [] \<rparr>
     = (Inl (Error ''API Error 404: {}''),
        \<lparr> requests = [\<lparr>topP = 2, skipP = 0, filterP = sampleFilter\<rparr>], sleeps = [],
          dirs = [''output''], files = [] \<rparr>)"
proof -
  have "fetchAttempts sampleConfig notFoundServer
          \<lparr>topP = 2, skipP = 0, filterP = sampleFilter\<rparr> 1 None
          \<lparr> requests = [], sleeps = [], dirs = [''output''], files = [] \<rparr>
        = (Inl (throwLast (Some notFound)),
           \<lparr> requests = [], sleeps = [], dirs = [''output''], files = [] \<rparr>
             \<lparr>requests := requests \<lparr> requests = [], sleeps = [], dirs = [''output''], files = [] \<rparr>
                @ [\<lparr>topP = 2, skipP = 0, filterP = sampleFilter\<rparr>]\<rparr>)"
    by (rule fetchAttempts_fatal)
      (simp_all add: sampleConfig_fields notFoundServer_def isRetryable_def notFound_def)
  moreover have "throwLast (Some notFound) = Error ''API Error 404: {}''"
    by (simp add: throwLast_def notFound_def showNat.simps digitChar_eval)
  ultimately show ?thesis
    by (simp add: fetchPositions_def Let_def sampleConfig_fields initState_def
        buildDateFilter_sample)
qed

lemma sample_file_name:
  "replaceFirst ''.sql'' (''_'' @ fileTimestamp (clock sampleHost 0)) (outputFile sampleConfig)
     = ''output/positions_2023-11-14T22-13-20-000Z''"
  by (simp add: sampleConfig_fields sampleHost_def fileTimestamp_def isoString_def date_eval)

lemma bare_run:
  "syncPositions sampleHost sampleConfig bareServer None None emptyWorld
     = Some (Inr \<lparr> success = True, resTotalFetched = 0, resTotalFiltered = 0,
                    sqlStatementsGenerated = 0,
                    oracleFile = ''output/positions_2023-11-14T22-13-20-000Z_oracle.sql'',
                    postgresFile = ''output/positions_2023-11-14T22-13-20-000Z_postgres.sql'' \<rparr>,
             \<lparr> requests = [\<lparr>topP = 2, skipP = 0, filterP = sampleFilter\<rparr>], sleeps = [],
               dirs = [''output''],
               files =
                 [(''output/positions_2023-11-14T22-13-20-000Z_oracle.sql'',
                   generateSqlHeader sampleConfig 1700000000000 None None (Some ''oracle'')
                     @ generateSqlFooter 0),
                  (''output/positions_2023-11-14T22-13-20-000Z_postgres.sql'',
                   generateSqlHeader sampleConfig 1700000000000 None None (Some ''postgres'')
                     @ generateSqlFooter 0)] \<rparr>)"
proof -
  let ?w0 = "\<lparr> requests = [], sleeps = [], dirs = [''output''], files = [] \<rparr>"
  have l: "syncLoop sampleHost sampleConfig bareServer None None initState ?w0
      = Some (Inr (initState\<lparr>hasMoreData := False\<rparr>),
              \<lparr> requests = [\<lparr>topP = 2, skipP = 0, filterP = sampleFilter\<rparr>], sleeps = [],
                dirs = [''output''], files = [] \<rparr>)"
    using syncLoop_stops_on_empty
      [of sampleConfig bareServer ?w0 NoData initState sampleHost None None]
    by (simp add: sampleConfig_fields bareServer_def resultsOf_def initState_def
        buildDateFilter_sample)
  have w: "writeOutput sampleHost sampleConfig None None (initState\<lparr>hasMoreData := False\<rparr>)
             \<lparr> requests = [\<lparr>topP = 2, skipP = 0, filterP = sampleFilter\<rparr>], sleeps = [],
                dirs = [''output''], files = [] \<rparr>
      = (Inr \<lparr> success = True, resTotalFetched = 0, resTotalFiltered = 0,
                    sqlStatementsGenerated = 0,
                    oracleFile = ''output/positions_2023-11-14T22-13-20-000Z_oracle.sql'',
                    postgresFile = ''output/positions_2023-11-14T22-13-20-000Z_postgres.sql'' \<rparr>,
             \<lparr> requests = [\<lparr>topP = 2, skipP = 0, filterP = sampleFilter\<rparr>], sleeps = [],
               dirs = [''output''],
               files =
                 [(''output/positions_2023-11-14T22-13-20-000Z_oracle.sql'',
                   generateSqlHeader sampleConfig 1700000000000 None None (Some ''oracle'')
                     @ generateSqlFooter 0),
                  (''output/positions_2023-11-14T22-13-20-000Z_postgres.sql'',
                   generateSqlHeader sampleConfig 1700000000000 None None (Some ''postgres'')
                     @ generateSqlFooter 0)] \<rparr>)"
    unfolding writeOutput_def Let_def sample_file_name
    by (simp add: initState_def sampleHost_def)
  show ?thesis
    unfolding syncPositions_def sample_directory
    by (simp add: sampleConfig_fields l w)
qed

text \<open>
  A server that answers 404 to the first request, and a run that ends after one page and
  writes its two files.
\<close>

theorem syncPositions_writes_after_loop_only_witness:
  "syncPositions sampleHost sampleConfig notFoundServer None None emptyWorld
     = Some (Inl (Error ''API Error 404: {}''),
             \<lparr> requests = [\<lparr>topP = 2, skipP = 0, filterP = sampleFilter\<rparr>], sleeps = [],
               dirs = [''output''], files = [] \<rparr>)
   \<and> (\<exists>r w'. syncPositions sampleHost sampleConfig bareServer None None emptyWorld
                 = Some (Inr r, w')
          \<and> map fst (files w')
              = [''output/positions_2023-11-14T22-13-20-000Z_oracle.sql'',
                 ''output/positions_2023-11-14T22-13-20-000Z_postgres.sql''])"
proof
  have reach: "loopReaches sampleHost sampleConfig notFoundServer None None
      (initState, ensureOutputDirectory sampleHost (outputFile sampleConfig) emptyWorld)
      (initState, \<lparr> requests = [], sleeps = [], dirs = [''output''], files = [] \<rparr>)"
    unfolding sample_directory by (rule loopReaches.atStart)
  have more: "hasMoreData initState" by (simp add: initState_def)
  show "syncPositions sampleHost sampleConfig notFoundServer None None emptyWorld
     = Some (Inl (Error ''API Error 404: {}''),
             \<lparr> requests = [\<lparr>topP = 2, skipP = 0, filterP = sampleFilter\<rparr>], sleeps = [],
               dirs = [''output''], files = [] \<rparr>)"
    using syncPositions_writes_after_loop_only
      [of sampleConfig sampleHost notFoundServer None None emptyWorld initState
         "\<lparr> requests = [], sleeps = [], dirs = [''output''], files = [] \<rparr>"
         "Error ''API Error 404: {}''"
         "\<lparr> requests = [\<lparr>topP = 2, skipP = 0, filterP = sampleFilter\<rparr>], sleeps = [],
               dirs = [''output''], files = [] \<rparr>", THEN conjunct1]
      reach more notFound_fetch
    by (simp add: sampleConfig_fields)
next
  let ?r = "\<lparr> success = True, resTotalFetched = 0, resTotalFiltered = 0,
                    sqlStatementsGenerated = 0,
                    oracleFile = ''output/positions_2023-11-14T22-13-20-000Z_oracle.sql'',
                    postgresFile = ''output/positions_2023-11-14T22-13-20-000Z_postgres.sql'' \<rparr>"
  obtain w' where run: "syncPositions sampleHost sampleConfig bareServer None None emptyWorld
      = Some (Inr ?r, w')"
    using bare_run by blast
  have "\<exists>oc pc. files w' = files emptyWorld @ [(oracleFile ?r, oc), (postgresFile ?r, pc)]"
    using syncPositions_writes_after_loop_only
      [of sampleConfig sampleHost bareServer None None emptyWorld _ _ _ _ "Inr ?r" w',
        THEN conjunct2] run
    by auto
  then have names: "map fst (files w')
              = [''output/positions_2023-11-14T22-13-20-000Z_oracle.sql'',
                 ''output/positions_2023-11-14T22-13-20-000Z_postgres.sql'']"
    by (auto simp: emptyWorld_def)
  show "\<exists>r w'. syncPositions sampleHost sampleConfig bareServer None None emptyWorld
                 = Some (Inr r, w')
          \<and> map fst (files w')
              = [''output/positions_2023-11-14T22-13-20-000Z_oracle.sql'',
                 ''output/positions_2023-11-14T22-13-20-000Z_postgres.sql'']"
    by (rule exI [of _ ?r], rule exI [of _ w']) (simp only: run names)
qed

end
